theory Spec2Isabelle
  imports Main
begin

section \<open>Values, documents and errors\<close>

text \<open>
  Python values that travel through the handlers of \<^verbatim>\<open>main.py\<close>: the claims of a token,
  the properties of an event and the documents of the store are dictionaries of such
  values. A dictionary is an association list (Python keeps insertion order); \<open>None\<close> of
  Python is \<open>JNull\<close> as a value and \<open>None\<close> of \<open>option\<close> as an absent result.
  Floats are left out: no handler computes with one. A Python string is the list of its
  code points, and the model has the code points below 256.
\<close>

datatype json =
    JNull
  | JBool bool
  | JInt int
  | JStr string
  | JArr "json list"
  | JObj "(string \<times> json) list"

type_synonym dict = "(string \<times> json) list"

text \<open>\<^verbatim>\<open>d.get(k)\<close>: the value under \<open>k\<close>, \<open>None\<close> when the key is absent.\<close>

definition dict_get :: "dict \<Rightarrow> string \<Rightarrow> json option" where
  "dict_get d k = map_of d k"

text \<open>Python truthiness, as \<^verbatim>\<open>not x\<close> and \<^verbatim>\<open>x or y\<close> read it.\<close>

fun truthy :: "json \<Rightarrow> bool" where
  "truthy JNull = False"
| "truthy (JBool b) = b"
| "truthy (JInt i) = (i \<noteq> 0)"
| "truthy (JStr s) = (s \<noteq> [])"
| "truthy (JArr xs) = (xs \<noteq> [])"
| "truthy (JObj kvs) = (kvs \<noteq> [])"

text \<open>
  Everything a handler can raise. \<open>HTTPException\<close> carries the status code and the detail
  of the response; the others are exceptions of the libraries, which FastAPI turns into
  an internal server error when no handler catches them.
\<close>

datatype exn =
    HTTPException nat string
  | JWTError
  | JWSError
  | UnknownHashError
  | MalformedHashError
  | PasswordValueError
  | PasswordSizeError
  | TypeError
  | ValidationError

section \<open>The document store\<close>

text \<open>
  Modelled from the spec: the module \<^verbatim>\<open>database\<close> (\<open>db\<close>, \<open>create_document\<close>) is not among
  the sources. Section 4.3 of the specification gives its contract: a store is a family
  of collections addressed by name, \<open>insert\<close> appends a document, \<open>find_one\<close> is an
  equality-filter lookup returning the first match or nothing, \<open>aggregate\<close> runs a
  grouping, sorting and limiting pipeline. The handle \<open>db\<close> is \<open>None\<close> when the store is
  not configured.
\<close>

type_synonym store = "string \<Rightarrow> dict list"
type_synonym db = "store option"

definition matches :: "dict \<Rightarrow> dict \<Rightarrow> bool" where
  "matches flt doc = list_all (\<lambda>(k, v). dict_get doc k = Some v) flt"

definition find_one :: "store \<Rightarrow> string \<Rightarrow> dict \<Rightarrow> dict option" where
  "find_one st coll flt = find (matches flt) (st coll)"

definition insert_one :: "string \<Rightarrow> dict \<Rightarrow> store \<Rightarrow> store" where
  "insert_one coll doc st = st(coll := st coll @ [doc])"

text \<open>
  The three stages of the pipeline of \<open>analytics_summary\<close>. \<open>$group\<close> with
  \<^verbatim>\<open>{"_id": "$type", "count": {"$sum": 1}}\<close> yields one row per distinct value of the field
  \<open>type\<close> (a document without the field groups under null), with the number of documents
  that carry it (the engine promises no order among the rows; the model lists each value
  where it occurs last). \<open>$sort\<close> with
  \<^verbatim>\<open>{"count": -1}\<close> orders rows by count, largest first (insertion sort, so rows of equal
  count keep their order). \<open>$limit\<close> keeps the first rows.
\<close>

definition type_of_doc :: "dict \<Rightarrow> json" where
  "type_of_doc doc = (case dict_get doc ''type'' of None \<Rightarrow> JNull | Some v \<Rightarrow> v)"

definition group_stage :: "dict list \<Rightarrow> (json \<times> nat) list" where
  "group_stage docs =
     (let ts = map type_of_doc docs
      in map (\<lambda>t. (t, count_list ts t)) (remdups ts))"

fun insert_desc :: "(json \<times> nat) \<Rightarrow> (json \<times> nat) list \<Rightarrow> (json \<times> nat) list" where
  "insert_desc r [] = [r]"
| "insert_desc r (x # xs) = (if snd x < snd r then r # x # xs else x # insert_desc r xs)"

definition sort_stage :: "(json \<times> nat) list \<Rightarrow> (json \<times> nat) list" where
  "sort_stage rows = foldr insert_desc rows []"

definition limit_stage :: "nat \<Rightarrow> (json \<times> nat) list \<Rightarrow> (json \<times> nat) list" where
  "limit_stage n rows = take n rows"

definition aggregate :: "store \<Rightarrow> string \<Rightarrow> (json \<times> nat) list" where
  "aggregate st coll = limit_stage 10 (sort_stage (group_stage (st coll)))"

section \<open>What the module gets from outside\<close>

text \<open>
  The module reads one environment variable and the clock, and calls two libraries:
  \<open>jose.jwt\<close> (\<open>encode\<close>, \<open>decode\<close>) and the \<open>CryptContext\<close> of passlib (\<open>hash\<close>, \<open>verify\<close>).
  None of them is code of the repository, so the handlers take them as parameters: a
  theorem about a handler then holds whatever the libraries do. A library call returns
  its value or the exception it raises. \<open>pwd_hash\<close> draws a fresh salt at each call; a
  handler hashes at most once, so one function stands for that call.
\<close>

record env =
  JWT_SECRET :: string
  utcnow_timestamp :: int
  jwt_encode :: "dict \<Rightarrow> string \<Rightarrow> string \<Rightarrow> exn + string"
  jwt_decode :: "string \<Rightarrow> string \<Rightarrow> string list \<Rightarrow> exn + dict"
  pwd_hash :: "string \<Rightarrow> exn + string"
  pwd_verify :: "string \<Rightarrow> json \<Rightarrow> exn + bool"

definition JWT_ALG :: string where
  "JWT_ALG = ''HS256''"

section \<open>Request and response models\<close>

record AuthRequest =
  email :: string
  password :: string

record EventIn =
  type :: string
  properties :: "dict option"

text \<open>
  The two schemas of \<^verbatim>\<open>schemas.py\<close>. \<open>Event\<close> declares \<open>user_id: str\<close>, so constructing one
  from a value that is not a string raises a validation error.
\<close>

datatype model =
    User string "string option" string
  | Event string string dict

fun model_dump :: "model \<Rightarrow> dict" where
  "model_dump (User e n h) =
     [(''email'', JStr e),
      (''name'', (case n of None \<Rightarrow> JNull | Some x \<Rightarrow> JStr x)),
      (''password_hash'', JStr h)]"
| "model_dump (Event u t ps) =
     [(''user_id'', JStr u), (''type'', JStr t), (''properties'', JObj ps)]"

definition create_document :: "string \<Rightarrow> model \<Rightarrow> store \<Rightarrow> store" where
  "create_document coll data st = insert_one coll (model_dump data) st"

fun new_Event :: "json \<Rightarrow> string \<Rightarrow> dict \<Rightarrow> exn + model" where
  "new_Event (JStr u) t ps = Inr (Event u t ps)"
| "new_Event _ t ps = Inl ValidationError"

datatype response =
    AuthResponse string string "json option"
  | Status string
  | Summary nat "(json \<times> nat) list"

section \<open>The functions of main.py\<close>

definition hash_password :: "env \<Rightarrow> string \<Rightarrow> exn + string" where
  "hash_password E pw = pwd_hash E pw"

text \<open>
  \<open>verify_password\<close> is annotated with \<open>str\<close> for the hash, which Python does not enforce:
  \<open>login\<close> passes whatever value the document holds, so the hash is any value here.
\<close>

definition verify_password :: "env \<Rightarrow> string \<Rightarrow> json \<Rightarrow> exn + bool" where
  "verify_password E pw password_hash = pwd_verify E pw password_hash"

definition create_token :: "env \<Rightarrow> string \<Rightarrow> exn + string" where
  "create_token E em =
     jwt_encode E [(''sub'', JStr em), (''iat'', JInt (utcnow_timestamp E))]
       (JWT_SECRET E) JWT_ALG"

definition not_configured :: exn where
  "not_configured = HTTPException 500 ''Database not configured''"

text \<open>\<^verbatim>\<open>if db["user"].find_one(...)\<close>: a missing document and an empty one are both falsy.\<close>

fun doc_truthy :: "dict option \<Rightarrow> bool" where
  "doc_truthy None = False"
| "doc_truthy (Some d) = (d \<noteq> [])"

definition register :: "env \<Rightarrow> db \<Rightarrow> AuthRequest \<Rightarrow> (exn + response) \<times> db" where
  "register E db payload =
     (case db of
        None \<Rightarrow> (Inl not_configured, db)
      | Some st \<Rightarrow>
          if doc_truthy (find_one st ''user'' [(''email'', JStr (email payload))])
          then (Inl (HTTPException 400 ''Email already registered''), db)
          else
            (case hash_password E (password payload) of
               Inl e \<Rightarrow> (Inl e, db)
             | Inr h \<Rightarrow>
                 let db' = Some (create_document ''user'' (User (email payload) None h) st)
                 in (case create_token E (email payload) of
                       Inl e \<Rightarrow> (Inl e, db')
                     | Inr token \<Rightarrow> (Inr (AuthResponse token (email payload) None), db'))))"

text \<open>
  \<^verbatim>\<open>if not user or not verify_password(...)\<close>: the password is only verified when a
  document was found, against \<^verbatim>\<open>user.get("password_hash", "")\<close>.
\<close>

definition stored_hash :: "dict \<Rightarrow> json" where
  "stored_hash u = (case dict_get u ''password_hash'' of None \<Rightarrow> JStr [] | Some v \<Rightarrow> v)"

definition invalid_credentials :: exn where
  "invalid_credentials = HTTPException 401 ''Invalid credentials''"

definition login :: "env \<Rightarrow> db \<Rightarrow> AuthRequest \<Rightarrow> (exn + response) \<times> db" where
  "login E db payload =
     (case db of
        None \<Rightarrow> (Inl not_configured, db)
      | Some st \<Rightarrow>
          (case find_one st ''user'' [(''email'', JStr (email payload))] of
             None \<Rightarrow> (Inl invalid_credentials, db)
           | Some user \<Rightarrow>
               if user = [] then (Inl invalid_credentials, db)
               else
                 (case verify_password E (password payload) (stored_hash user) of
                    Inl e \<Rightarrow> (Inl e, db)
                  | Inr ok \<Rightarrow>
                      if \<not> ok then (Inl invalid_credentials, db)
                      else
                        (case create_token E (email payload) of
                           Inl e \<Rightarrow> (Inl e, db)
                         | Inr token \<Rightarrow>
                             (Inr (AuthResponse token (email payload) (dict_get user ''name'')),
                              db)))))"

text \<open>
  The subject of the bearer token of \<open>track_event\<close>: \<open>None\<close> without a usable header,
  \<^verbatim>\<open>payload.get("sub")\<close> when the token decodes, \<open>None\<close> again when decoding raises
  \<open>JWTError\<close>, the only exception the handler catches.
  \<^verbatim>\<open>authorization.split(" ", 1)[1]\<close> is what follows the first space, which after the
  \<open>startswith\<close> test is the space that ends \<^verbatim>\<open>"Bearer "\<close>.
\<close>

definition startswith :: "string \<Rightarrow> string \<Rightarrow> bool" where
  "startswith s p = (take (length p) s = p)"

definition bearer_email :: "env \<Rightarrow> string option \<Rightarrow> exn + json option" where
  "bearer_email E authorization =
     (case authorization of
        None \<Rightarrow> Inr None
      | Some a \<Rightarrow>
          if a \<noteq> [] \<and> startswith a ''Bearer ''
          then
            (let token = drop 1 (dropWhile (\<lambda>c. c \<noteq> CHR '' '') a)
             in case jwt_decode E token (JWT_SECRET E) [JWT_ALG] of
                  Inr payload \<Rightarrow> Inr (dict_get payload ''sub'')
                | Inl JWTError \<Rightarrow> Inr None
                | Inl e \<Rightarrow> Inl e)
          else Inr None)"

text \<open>\<^verbatim>\<open>email or "anonymous"\<close>.\<close>

fun or_anonymous :: "json option \<Rightarrow> json" where
  "or_anonymous None = JStr ''anonymous''"
| "or_anonymous (Some v) = (if truthy v then v else JStr ''anonymous'')"

text \<open>\<^verbatim>\<open>event.properties or {}\<close>.\<close>

fun or_empty :: "dict option \<Rightarrow> dict" where
  "or_empty None = []"
| "or_empty (Some ps) = ps"

definition track_event :: "env \<Rightarrow> db \<Rightarrow> EventIn \<Rightarrow> string option \<Rightarrow> (exn + response) \<times> db" where
  "track_event E db event authorization =
     (case db of
        None \<Rightarrow> (Inl not_configured, db)
      | Some st \<Rightarrow>
          (case bearer_email E authorization of
             Inl e \<Rightarrow> (Inl e, db)
           | Inr em \<Rightarrow>
               (case new_Event (or_anonymous em) (type event) (or_empty (properties event)) of
                  Inl e \<Rightarrow> (Inl e, db)
                | Inr data \<Rightarrow>
                    (Inr (Status ''ok''), Some (create_document ''event'' data st)))))"

text \<open>
  \<^verbatim>\<open>summary = {r["_id"]: r["count"] for r in results}\<close>: a later row with the key of an
  earlier one replaces its count and keeps its place.
\<close>

fun dict_set :: "('k \<times> 'v) list \<Rightarrow> 'k \<Rightarrow> 'v \<Rightarrow> ('k \<times> 'v) list" where
  "dict_set [] k v = [(k, v)]"
| "dict_set ((k', v') # kvs) k v =
     (if k' = k then (k, v) # kvs else (k', v') # dict_set kvs k v)"

definition dict_of_rows :: "(json \<times> nat) list \<Rightarrow> (json \<times> nat) list" where
  "dict_of_rows rows = fold (\<lambda>r d. dict_set d (fst r) (snd r)) rows []"

definition analytics_summary :: "db \<Rightarrow> string option \<Rightarrow> (exn + response) \<times> db" where
  "analytics_summary db authorization =
     (case db of
        None \<Rightarrow> (Inl not_configured, db)
      | Some st \<Rightarrow>
          let results = aggregate st ''event'';
              summary = dict_of_rows results;
              total = sum_list (map snd summary)
          in (Inr (Summary total summary), db))"

section \<open>A model of the token library\<close>

text \<open>
  \<open>jose.jwt\<close> is a library, not code of the repository; this is a model of what its
  \<open>encode\<close> and \<open>decode\<close> do for the calls of \<^verbatim>\<open>main.py\<close>, so that the handlers can be run
  and a token can be followed from \<open>create_token\<close> to \<open>track_event\<close>. A token is the
  compact serialisation of a signed object: the headers and the claims, each written as
  JSON and encoded in base64url without padding, and the signature over the two,
  joined by dots. The keyed hash is a parameter \<open>hmac\<close> (algorithm, key, message); nothing
  is assumed of it.

  The limits of the model. A string is a list of code points below 256. The reader of
  JSON reads an object whose values are strings, integers, booleans and null, written
  without white space, which is what the writer produces for the claims issued here; it
  rejects a nested value, a fraction or white space where \<open>json.loads\<close> accepts them. Of
  the registered claims only \<open>sub\<close> is checked (it must be a string when present);
  \<open>exp\<close>, \<open>nbf\<close>, \<open>aud\<close> and the others are never issued by this program. A theorem that
  assumes what \<open>jwt_decode\<close> returns does not depend on these limits.
\<close>

subsection \<open>Bytes and base64url\<close>

text \<open>\<^verbatim>\<open>s.encode("utf-8")\<close> for code points below 256.\<close>

definition utf8 :: "string \<Rightarrow> string" where
  "utf8 s = concat (map (\<lambda>c. let n = (of_char c :: nat)
                              in if n < 128 then [c]
                                 else [char_of (192 + n div 64), char_of (128 + n mod 64)]) s)"


text \<open>
  \<^verbatim>\<open>base64url_encode\<close>: three bytes make four characters of the URL-safe alphabet; the
  padding is stripped. \<^verbatim>\<open>base64url_decode\<close> is its inverse; a character outside the
  alphabet or a length of 1 modulo 4 fails.
\<close>

definition b64_char :: "nat \<Rightarrow> char" where
  "b64_char n =
     (if n < 26 then char_of (65 + n)
      else if n < 52 then char_of (71 + n)
      else if n < 62 then char_of (n - 4)
      else if n = 62 then CHR ''-'' else CHR ''_'')"

definition b64_value :: "char \<Rightarrow> nat option" where
  "b64_value c =
     (let k = (of_char c :: nat)
      in if 65 \<le> k \<and> k \<le> 90 then Some (k - 65)
         else if 97 \<le> k \<and> k \<le> 122 then Some (k - 71)
         else if 48 \<le> k \<and> k \<le> 57 then Some (k + 4)
         else if k = 45 then Some 62
         else if k = 95 then Some 63
         else None)"

fun sextets :: "nat list \<Rightarrow> nat list" where
  "sextets (a # b # c # bs) =
     [a div 4, (a mod 4) * 16 + b div 16, (b mod 16) * 4 + c div 64, c mod 64] @ sextets bs"
| "sextets [a, b] = [a div 4, (a mod 4) * 16 + b div 16, (b mod 16) * 4]"
| "sextets [a] = [a div 4, (a mod 4) * 16]"
| "sextets [] = []"

fun octets :: "nat list \<Rightarrow> nat list option" where
  "octets (p # q # r # s # ss) =
     map_option (\<lambda>bs. [p * 4 + q div 16, (q mod 16) * 16 + r div 4, (r mod 4) * 64 + s] @ bs)
       (octets ss)"
| "octets [p, q, r] = Some [p * 4 + q div 16, (q mod 16) * 16 + r div 4]"
| "octets [p, q] = Some [p * 4 + q div 16]"
| "octets [p] = None"
| "octets [] = Some []"

fun those_opt :: "'a option list \<Rightarrow> 'a list option" where
  "those_opt [] = Some []"
| "those_opt (None # xs) = None"
| "those_opt (Some x # xs) = map_option ((#) x) (those_opt xs)"

definition base64url_encode :: "string \<Rightarrow> string" where
  "base64url_encode s = map b64_char (sextets (map of_char s))"

definition base64url_decode :: "string \<Rightarrow> string option" where
  "base64url_decode t =
     (case those_opt (map b64_value t) of
        None \<Rightarrow> None
      | Some ss \<Rightarrow> map_option (map char_of) (octets ss))"


subsection \<open>Writing JSON\<close>

text \<open>
  \<^verbatim>\<open>json.dumps(x, separators=(",", ":"))\<close>: no white space; in a string the quote, the
  backslash and the control characters are escaped, and so is every code point outside
  the printable ASCII range (\<open>ensure_ascii\<close>).
\<close>

definition hex_digit :: "nat \<Rightarrow> char" where
  "hex_digit n = (if n < 10 then char_of (48 + n) else char_of (87 + n))"

definition escape_char :: "char \<Rightarrow> string" where
  "escape_char c =
     (let n = (of_char c :: nat)
      in if c = CHR 0x22 then [CHR 0x5C, CHR 0x22]
         else if c = CHR 0x5C then [CHR 0x5C, CHR 0x5C]
         else if n = 10 then [CHR 0x5C, CHR ''n'']
         else if n = 13 then [CHR 0x5C, CHR ''r'']
         else if n = 9 then [CHR 0x5C, CHR ''t'']
         else if n = 8 then [CHR 0x5C, CHR ''b'']
         else if n = 12 then [CHR 0x5C, CHR ''f'']
         else if n < 32 \<or> 126 < n
           then [CHR 0x5C, CHR ''u'', CHR ''0'', CHR ''0'', hex_digit (n div 16), hex_digit (n mod 16)]
         else [c])"

definition dumps_str :: "string \<Rightarrow> string" where
  "dumps_str s = [CHR 0x22] @ concat (map escape_char s) @ [CHR 0x22]"

fun digits :: "nat \<Rightarrow> string" where
  "digits n = (if n < 10 then [char_of (48 + n)] else digits (n div 10) @ [char_of (48 + n mod 10)])"

declare digits.simps [simp del]

definition dumps_int :: "int \<Rightarrow> string" where
  "dumps_int i = (if i < 0 then CHR ''-'' # digits (nat (- i)) else digits (nat i))"

fun join :: "string \<Rightarrow> string list \<Rightarrow> string" where
  "join sep [] = []"
| "join sep [x] = x"
| "join sep (x # y # ys) = x @ sep @ join sep (y # ys)"

fun json_dumps :: "json \<Rightarrow> string" where
  "json_dumps JNull = ''null''"
| "json_dumps (JBool b) = (if b then ''true'' else ''false'')"
| "json_dumps (JInt i) = dumps_int i"
| "json_dumps (JStr s) = dumps_str s"
| "json_dumps (JArr vs) = ''['' @ join '','' (map json_dumps vs) @ '']''"
| "json_dumps (JObj kvs) =
     ''{'' @ join '','' (map (\<lambda>(k, v). dumps_str k @ '':'' @ json_dumps v) kvs) @ ''}''"


subsection \<open>Reading JSON\<close>

definition hex_value :: "char \<Rightarrow> nat option" where
  "hex_value c =
     (let k = (of_char c :: nat)
      in if 48 \<le> k \<and> k \<le> 57 then Some (k - 48)
         else if 97 \<le> k \<and> k \<le> 102 then Some (k - 87)
         else if 65 \<le> k \<and> k \<le> 70 then Some (k - 55)
         else None)"

definition unescape :: "char \<Rightarrow> char option" where
  "unescape e =
     (if e = CHR 0x22 then Some (CHR 0x22)
      else if e = CHR 0x5C then Some (CHR 0x5C)
      else if e = CHR ''/'' then Some (CHR ''/'')
      else if e = CHR ''n'' then Some (CHR 0x0A)
      else if e = CHR ''r'' then Some (CHR 0x0D)
      else if e = CHR ''t'' then Some (CHR 0x09)
      else if e = CHR ''b'' then Some (CHR 0x08)
      else if e = CHR ''f'' then Some (CHR 0x0C)
      else None)"

definition hex4 :: "char \<Rightarrow> char \<Rightarrow> char \<Rightarrow> char \<Rightarrow> nat option" where
  "hex4 h1 h2 h3 h4 =
     (case (hex_value h1, hex_value h2, hex_value h3, hex_value h4) of
        (Some a, Some b, Some c, Some d) \<Rightarrow> Some (((a * 16 + b) * 16 + c) * 16 + d)
      | _ \<Rightarrow> None)"

definition push :: "char \<Rightarrow> (string \<times> string) option \<Rightarrow> (string \<times> string) option" where
  "push c r = map_option (\<lambda>(s, t). (c # s, t)) r"

fun loads_chars :: "string \<Rightarrow> (string \<times> string) option" where
  "loads_chars [] = None"
| "loads_chars (c # cs) =
     (if c = CHR 0x22 then Some ([], cs)
      else if c = CHR 0x5C then
        (case cs of
           [] \<Rightarrow> None
         | e # cs1 \<Rightarrow>
             if e = CHR ''u'' then
               (case cs1 of
                  h1 # h2 # h3 # h4 # cs2 \<Rightarrow>
                    (case hex4 h1 h2 h3 h4 of
                       None \<Rightarrow> None
                     | Some n \<Rightarrow> if n < 256 then push (char_of n) (loads_chars cs2) else None)
                | _ \<Rightarrow> None)
             else
               (case unescape e of
                  None \<Rightarrow> None
                | Some ch \<Rightarrow> push ch (loads_chars cs1)))
      else if (of_char c :: nat) < 32 \<or> 127 < (of_char c :: nat) then None
      else push c (loads_chars cs))"

definition digit_value :: "char \<Rightarrow> nat option" where
  "digit_value c =
     (let k = (of_char c :: nat) in if 48 \<le> k \<and> k \<le> 57 then Some (k - 48) else None)"

fun loads_digits :: "nat \<Rightarrow> string \<Rightarrow> nat \<times> string" where
  "loads_digits acc [] = (acc, [])"
| "loads_digits acc (c # cs) =
     (case digit_value c of
        None \<Rightarrow> (acc, c # cs)
      | Some d \<Rightarrow> loads_digits (10 * acc + d) cs)"

definition loads_nat :: "string \<Rightarrow> (nat \<times> string) option" where
  "loads_nat s =
     (case s of
        [] \<Rightarrow> None
      | c # cs \<Rightarrow>
          (case digit_value c of
             None \<Rightarrow> None
           | Some d \<Rightarrow> if d = 0 then Some (0, cs) else Some (loads_digits 0 s)))"

definition loads_int :: "string \<Rightarrow> (int \<times> string) option" where
  "loads_int s =
     (case s of
        [] \<Rightarrow> None
      | c # cs \<Rightarrow>
          if c = CHR ''-'' then map_option (\<lambda>(n, r). (- int n, r)) (loads_nat cs)
          else map_option (\<lambda>(n, r). (int n, r)) (loads_nat s))"

definition starts_float :: "string \<Rightarrow> bool" where
  "starts_float r = (case r of [] \<Rightarrow> False | c # _ \<Rightarrow> c \<in> set ''.eE'')"

definition loads_value :: "string \<Rightarrow> (json \<times> string) option" where
  "loads_value s =
     (case s of
        [] \<Rightarrow> None
      | c # cs \<Rightarrow>
          if c = CHR 0x22 then map_option (\<lambda>(x, r). (JStr x, r)) (loads_chars cs)
          else if take 4 s = ''null'' then Some (JNull, drop 4 s)
          else if take 4 s = ''true'' then Some (JBool True, drop 4 s)
          else if take 5 s = ''false'' then Some (JBool False, drop 5 s)
          else
            (case loads_int s of
               None \<Rightarrow> None
             | Some (i, r) \<Rightarrow> if starts_float r then None else Some (JInt i, r)))"


text \<open>
  The members of an object, after the opening brace. A key read twice keeps its place
  and takes the later value, as a Python dictionary does. The first argument bounds the
  number of members (the reader is called with the length of the text).
\<close>

fun loads_members :: "nat \<Rightarrow> dict \<Rightarrow> string \<Rightarrow> (dict \<times> string) option" where
  "loads_members 0 acc s = None"
| "loads_members (Suc n) acc s =
     (case s of
        [] \<Rightarrow> None
      | c # cs \<Rightarrow>
          if c \<noteq> CHR 0x22 then None
          else
            (case loads_chars cs of
               None \<Rightarrow> None
             | Some (k, r) \<Rightarrow>
                 (case r of
                    [] \<Rightarrow> None
                  | c1 # r1 \<Rightarrow>
                      if c1 \<noteq> CHR '':'' then None
                      else
                        (case loads_value r1 of
                           None \<Rightarrow> None
                         | Some (v, r2) \<Rightarrow>
                             (case r2 of
                                [] \<Rightarrow> None
                              | c2 # r3 \<Rightarrow>
                                  if c2 = CHR '','' then loads_members n (dict_set acc k v) r3
                                  else if c2 = CHR ''}'' then Some (dict_set acc k v, r3)
                                  else None)))))"

definition json_loads :: "string \<Rightarrow> json option" where
  "json_loads s =
     (case s of
        [] \<Rightarrow> None
      | c # cs \<Rightarrow>
          if c = CHR ''{'' then
            (if cs = ''}'' then Some (JObj [])
             else (case loads_members (length cs) [] cs of
                     Some (d, []) \<Rightarrow> Some (JObj d)
                   | _ \<Rightarrow> None))
          else (case loads_value s of Some (v, []) \<Rightarrow> Some v | _ \<Rightarrow> None))"


subsection \<open>Signing and verifying\<close>

text \<open>\<^verbatim>\<open>s.split(c, 1)\<close> and \<^verbatim>\<open>s.rsplit(c, 1)\<close> when \<open>c\<close> occurs in \<open>s\<close>.\<close>

definition split_first :: "char \<Rightarrow> string \<Rightarrow> (string \<times> string) option" where
  "split_first c s =
     (if c \<in> set s then Some (takeWhile (\<lambda>x. x \<noteq> c) s, drop 1 (dropWhile (\<lambda>x. x \<noteq> c) s))
      else None)"

definition split_last :: "char \<Rightarrow> string \<Rightarrow> (string \<times> string) option" where
  "split_last c s =
     (case split_first c (rev s) of
        None \<Rightarrow> None
      | Some (b, a) \<Rightarrow> Some (rev a, rev b))"

definition hs_algorithms :: "string list" where
  "hs_algorithms = [''HS256'', ''HS384'', ''HS512'']"


text \<open>
  \<^verbatim>\<open>jwt.encode(claims, key, algorithm)\<close>. The headers are \<^verbatim>\<open>{"alg": algorithm, "typ": "JWT"}\<close>,
  written with sorted keys.
\<close>

definition jose_encode ::
  "(string \<Rightarrow> string \<Rightarrow> string \<Rightarrow> string) \<Rightarrow> dict \<Rightarrow> string \<Rightarrow> string \<Rightarrow> exn + string" where
  "jose_encode hmac claims key algorithm =
     (if algorithm \<in> set hs_algorithms then
        let encoded_header =
              base64url_encode (json_dumps (JObj [(''alg'', JStr algorithm), (''typ'', JStr ''JWT'')]));
            encoded_claims = base64url_encode (json_dumps (JObj claims));
            signing_input = encoded_header @ ''.'' @ encoded_claims;
            signature = hmac algorithm (utf8 key) signing_input
        in Inr (signing_input @ ''.'' @ base64url_encode signature)
      else Inl JWSError)"


text \<open>
  \<^verbatim>\<open>jwt.decode(token, key, algorithms)\<close>: split the token, decode the three segments,
  read the headers, refuse an algorithm that is not allowed, compare the signature,
  read the claims, check them. Every failure is a \<open>JWTError\<close>.
\<close>

definition validate_sub :: "dict \<Rightarrow> bool" where
  "validate_sub claims =
     (case dict_get claims ''sub'' of None \<Rightarrow> True | Some (JStr s) \<Rightarrow> True | Some _ \<Rightarrow> False)"

definition jose_decode ::
  "(string \<Rightarrow> string \<Rightarrow> string \<Rightarrow> string) \<Rightarrow> string \<Rightarrow> string \<Rightarrow> string list \<Rightarrow> exn + dict" where
  "jose_decode hmac token key algorithms =
     (case split_last (CHR ''.'') token of
        None \<Rightarrow> Inl JWTError
      | Some (signing_input, crypto_segment) \<Rightarrow>
     (case split_first (CHR ''.'') signing_input of
        None \<Rightarrow> Inl JWTError
      | Some (header_segment, claims_segment) \<Rightarrow>
     (case (base64url_decode header_segment, base64url_decode claims_segment,
            base64url_decode crypto_segment) of
        (Some header_data, Some payload, Some signature) \<Rightarrow>
          (case json_loads header_data of
             Some (JObj header) \<Rightarrow>
               (case dict_get header ''alg'' of
                  Some (JStr alg) \<Rightarrow>
                    if alg \<in> set algorithms \<and> alg \<in> set hs_algorithms
                       \<and> hmac alg (utf8 key) signing_input = signature
                    then
                      (case json_loads payload of
                         Some (JObj claims) \<Rightarrow>
                           if validate_sub claims then Inr claims else Inl JWTError
                       | _ \<Rightarrow> Inl JWTError)
                    else Inl JWTError
                | _ \<Rightarrow> Inl JWTError)
           | _ \<Rightarrow> Inl JWTError)
      | _ \<Rightarrow> Inl JWTError)))"


subsection \<open>Notions for the round trip\<close>

text \<open>
  A flat value is one the reader reads back; \<open>item\<close> is how a member is written;
  \<open>closes\<close> says that a text goes on with a comma or the closing brace.
\<close>

fun flat :: "json \<Rightarrow> bool" where
  "flat (JArr vs) = False"
| "flat (JObj kvs) = False"
| "flat v = True"

definition item :: "string \<times> json \<Rightarrow> string" where
  "item kv = dumps_str (fst kv) @ '':'' @ json_dumps (snd kv)"

definition closes :: "string \<Rightarrow> bool" where
  "closes t = (case t of [] \<Rightarrow> False | c # _ \<Rightarrow> c = CHR '','' \<or> c = CHR ''}'')"

section \<open>A model of the password library\<close>

text \<open>
  The \<open>CryptContext\<close> of passlib with the single scheme bcrypt is a library as well. A
  bcrypt hash is the text \<^verbatim>\<open>$2b$\<close>, two digits of cost, \<^verbatim>\<open>$\<close>, 22 characters of salt and
  31 characters of digest, both in the alphabet of bcrypt. The key derivation is a
  parameter \<open>bcrypt\<close> (variant, cost, salt, key): it is given the first 72 bytes of the
  password, all that bcrypt reads.

  \<open>hash\<close> and \<open>verify\<close> refuse a password of more than 4096 characters, or of more than
  4096 bytes once encoded (\<open>PasswordSizeError\<close>), and one with a NUL byte
  (\<open>PasswordValueError\<close>). \<open>verify\<close> returns \<open>False\<close> for the hash \<open>None\<close>; a string that
  does not start like a bcrypt hash cannot be identified and raises \<open>UnknownHashError\<close>;
  one that starts like a hash and is not well formed raises a \<open>ValueError\<close> (here
  \<open>MalformedHashError\<close>); otherwise the digest of the password is compared with the
  stored one. The 22 characters of a salt carry 128 bits and the 31 of a digest 184:
  the last character of a salt has four unused bits and that of a digest two, which
  passlib sets to zero in the salt it draws and in the salt and the digest it reads
  from a hash.
\<close>

definition MAX_PASSWORD_SIZE :: nat where
  "MAX_PASSWORD_SIZE = 4096"

definition bcrypt_idents :: "string list" where
  "bcrypt_idents = [''$2$'', ''$2a$'', ''$2x$'', ''$2y$'', ''$2b$'']"

definition identify :: "string \<Rightarrow> bool" where
  "identify h = list_ex (startswith h) bcrypt_idents"

definition bcrypt64_char :: "char \<Rightarrow> bool" where
  "bcrypt64_char c =
     (let k = (of_char c :: nat)
      in k = 46 \<or> k = 47 \<or> (48 \<le> k \<and> k \<le> 57) \<or> (65 \<le> k \<and> k \<le> 90)
         \<or> (97 \<le> k \<and> k \<le> 122))"

definition bcrypt64 :: "string \<Rightarrow> bool" where
  "bcrypt64 s = list_all bcrypt64_char s"

text \<open>
  The alphabet is \<^verbatim>\<open>./A-Za-z0-9\<close>, in this order: the value of a character of the
  alphabet (the only ones it is asked for), the character of a value below 64, and a
  text with the lowest \<open>bits\<close> bits of its last character set to zero.
\<close>

definition bcrypt64_value :: "char \<Rightarrow> nat" where
  "bcrypt64_value c =
     (let k = (of_char c :: nat)
      in if k = 46 then 0
         else if k = 47 then 1
         else if 65 \<le> k \<and> k \<le> 90 then k - 63
         else if 97 \<le> k \<and> k \<le> 122 then k - 69
         else k + 6)"

definition bcrypt64_digit :: "nat \<Rightarrow> char" where
  "bcrypt64_digit n =
     (if n = 0 then CHR ''.''
      else if n = 1 then CHR ''/''
      else if n < 28 then char_of (n + 63)
      else if n < 54 then char_of (n + 69)
      else char_of (n - 6))"

definition repair_unused :: "nat \<Rightarrow> string \<Rightarrow> string" where
  "repair_unused bits s =
     (if s = [] then []
      else butlast s
           @ [bcrypt64_digit (bcrypt64_value (last s) - bcrypt64_value (last s) mod 2 ^ bits)])"

definition two_digits :: "string \<Rightarrow> nat option" where
  "two_digits s =
     (case s of
        [a, b] \<Rightarrow>
          (case (digit_value a, digit_value b) of
             (Some x, Some y) \<Rightarrow> Some (10 * x + y)
           | _ \<Rightarrow> None)
      | _ \<Rightarrow> None)"

definition from_string :: "string \<Rightarrow> (string \<times> nat \<times> string \<times> string) option" where
  "from_string h =
     (case find (startswith h) bcrypt_idents of
        None \<Rightarrow> None
      | Some ident \<Rightarrow>
          if ident = ''$2x$'' then None
          else
            (case split_first (CHR ''$'') (drop (length ident) h) of
               None \<Rightarrow> None
             | Some (rounds_str, data) \<Rightarrow>
                 (case two_digits rounds_str of
                    None \<Rightarrow> None
                  | Some rounds \<Rightarrow>
                      if 4 \<le> rounds \<and> rounds \<le> 31 \<and> length data = 53
                         \<and> bcrypt64 data
                      then Some (ident, rounds, repair_unused 4 (take 22 data),
                                 repair_unused 2 (drop 22 data))
                      else None)))"

type_synonym bcrypt_fn = "string \<Rightarrow> nat \<Rightarrow> string \<Rightarrow> string \<Rightarrow> string"

definition has_nul :: "string \<Rightarrow> bool" where
  "has_nul secret = (CHR 0x00 \<in> set (utf8 secret))"

definition too_long :: "string \<Rightarrow> bool" where
  "too_long secret =
     (length secret > MAX_PASSWORD_SIZE \<or> length (utf8 secret) > MAX_PASSWORD_SIZE)"

definition calc_checksum :: "bcrypt_fn \<Rightarrow> string \<Rightarrow> nat \<Rightarrow> string \<Rightarrow> string \<Rightarrow> string" where
  "calc_checksum bcrypt ident rounds salt secret = bcrypt ident rounds salt (take 72 (utf8 secret))"

text \<open>\<open>hash\<close>, for the salt that was drawn: 22 characters of the alphabet.\<close>

definition passlib_hash :: "bcrypt_fn \<Rightarrow> string \<Rightarrow> string \<Rightarrow> exn + string" where
  "passlib_hash bcrypt salt secret =
     (if too_long secret then Inl PasswordSizeError
      else if has_nul secret then Inl PasswordValueError
      else Inr (''$2b$12$'' @ repair_unused 4 salt
                @ calc_checksum bcrypt ''$2b$'' 12 (repair_unused 4 salt) secret))"

definition passlib_verify :: "bcrypt_fn \<Rightarrow> string \<Rightarrow> json \<Rightarrow> exn + bool" where
  "passlib_verify bcrypt secret hash =
     (case hash of
        JNull \<Rightarrow> Inr False
      | JStr h \<Rightarrow>
          if \<not> identify h then Inl UnknownHashError
          else if length secret > MAX_PASSWORD_SIZE then Inl PasswordSizeError
          else
            (case from_string h of
               None \<Rightarrow> Inl MalformedHashError
             | Some (ident, rounds, salt, chk) \<Rightarrow>
                 if length (utf8 secret) > MAX_PASSWORD_SIZE then Inl PasswordSizeError
                 else if has_nul secret then Inl PasswordValueError
                 else Inr (calc_checksum bcrypt ident rounds salt secret = chk))
      | _ \<Rightarrow> Inl TypeError)"


text \<open>
  What the two parameters are expected to return: a digest of 31 characters of the
  alphabet with its two unused bits at zero, and a salt of 22 characters of the alphabet.
\<close>

definition wf_bcrypt :: "bcrypt_fn \<Rightarrow> bool" where
  "wf_bcrypt bcrypt = (\<forall>ident rounds salt key.
      length (bcrypt ident rounds salt key) = 31 \<and> bcrypt64 (bcrypt ident rounds salt key)
      \<and> repair_unused 2 (bcrypt ident rounds salt key) = bcrypt ident rounds salt key)"

definition wf_salt :: "string \<Rightarrow> bool" where
  "wf_salt salt = (length salt = 22 \<and> bcrypt64 salt)"


section \<open>The environment made of the two models\<close>

definition reference_env ::
  "(string \<Rightarrow> string \<Rightarrow> string \<Rightarrow> string) \<Rightarrow> bcrypt_fn \<Rightarrow> string \<Rightarrow> string \<Rightarrow> int \<Rightarrow> env" where
  "reference_env hmac bcrypt salt secret now =
     \<lparr> JWT_SECRET = secret,
       utcnow_timestamp = now,
       jwt_encode = jose_encode hmac,
       jwt_decode = jose_decode hmac,
       pwd_hash = passlib_hash bcrypt salt,
       pwd_verify = passlib_verify bcrypt \<rparr>"

text \<open>
  Stand-ins for the two primitives, to run the models on concrete inputs; they are not
  cryptographic functions and no theorem about all environments mentions them.
\<close>

definition demo_hmac :: "string \<Rightarrow> string \<Rightarrow> string \<Rightarrow> string" where
  "demo_hmac alg key msg = take 32 (rev key @ msg)"

definition demo_bcrypt :: bcrypt_fn where
  "demo_bcrypt ident rounds salt key =
     take 30 (map (\<lambda>c. char_of (97 + (of_char c :: nat) mod 26)) key @ replicate 30 (CHR ''.''))
     @ ''.''"


definition demo_env :: env where
  "demo_env =
     reference_env demo_hmac demo_bcrypt ''abcdefghijklmnopqrstuu'' ''dev-secret-change-me''
       1700000000"

section \<open>Notions the properties are stated with\<close>

text \<open>The number of stored events of a type, counted directly on the collection.\<close>

definition event_count :: "store \<Rightarrow> json \<Rightarrow> nat" where
  "event_count st t = length (filter (\<lambda>d. type_of_doc d = t) (st ''event''))"

text \<open>
  The scenario of the specification: three events of type \<open>click\<close> and one of type \<open>view\<close>.
\<close>

definition sample_events :: store where
  "sample_events =
     (\<lambda>_. [])(''event'' :=
        map model_dump
          [Event ''anonymous'' ''click'' [], Event ''a@x.com'' ''view'' [],
           Event ''anonymous'' ''click'' [], Event ''a@x.com'' ''click'' []])"

text \<open>
  The token \<open>jwt_encode\<close> makes for some claims under the secret and the algorithm of the
  module (the empty text if it raises).
\<close>

definition token_for :: "env \<Rightarrow> dict \<Rightarrow> string" where
  "token_for E claims =
     (case jwt_encode E claims (JWT_SECRET E) JWT_ALG of Inr t \<Rightarrow> t | Inl e \<Rightarrow> [])"

text \<open>A request body and a second environment, with another secret.\<close>

definition sample_click :: EventIn where
  "sample_click = \<lparr> type = ''click'', properties = None \<rparr>"

definition other_env :: env where
  "other_env =
     reference_env demo_hmac demo_bcrypt ''abcdefghijklmnopqrstuu'' ''another-secret'' 1700000000"

text \<open>
  The text of the hash that the model of \<open>hash\<close> makes for a password, and a store with
  one registered user, whose password is "pw1".
\<close>

definition hash_text :: "bcrypt_fn \<Rightarrow> string \<Rightarrow> string \<Rightarrow> string" where
  "hash_text bcrypt salt p =
     ''$2b$12$'' @ repair_unused 4 salt
     @ calc_checksum bcrypt ''$2b$'' 12 (repair_unused 4 salt) p"

definition user_store :: store where
  "user_store =
     (\<lambda>_. [])(''user'' :=
        [model_dump (User ''a@x.com'' None
           (hash_text demo_bcrypt ''abcdefghijklmnopqrstuu'' ''pw1''))])"

text \<open>
  The e-mail addresses of the user documents, one entry per document that has the
  field: no address is held by two documents when this list is distinct.
\<close>

definition emails :: "store \<Rightarrow> json list" where
  "emails st = List.map_filter (\<lambda>d. dict_get d ''email'') (st ''user'')"

text \<open>
  Requests served one after the other, each in its own environment (the clock and the
  salt change from one request to the next); \<open>serve\<close> keeps the store and drops the
  responses.
\<close>

datatype request =
    Register AuthRequest
  | Login AuthRequest
  | TrackEvent EventIn "string option"
  | AnalyticsSummary "string option"

fun handle :: "env \<Rightarrow> db \<Rightarrow> request \<Rightarrow> (exn + response) \<times> db" where
  "handle E db (Register p) = register E db p"
| "handle E db (Login p) = login E db p"
| "handle E db (TrackEvent ev a) = track_event E db ev a"
| "handle E db (AnalyticsSummary a) = analytics_summary db a"

fun serve :: "db \<Rightarrow> (env \<times> request) list \<Rightarrow> db" where
  "serve db [] = db"
| "serve db ((E, r) # rs) = serve (snd (handle E db r)) rs"

text \<open>
  A password of 73 bytes, 72 times the letter a and one more character; and a store
  whose only user document has no \<open>password_hash\<close>.
\<close>

definition long_password :: "char \<Rightarrow> string" where
  "long_password c = replicate 72 (CHR ''a'') @ [c]"

definition broken_store :: store where
  "broken_store = (\<lambda>_. [])(''user'' := [[(''email'', JStr ''c@x.com''), (''name'', JNull)]])"

section \<open>Store not configured\<close>

text \<open>
  C9. When the store is not configured (\<open>db\<close> is \<open>None\<close>), each of the four handlers
  \<open>register\<close>, \<open>login\<close>, \<open>track_event\<close> and \<open>analytics_summary\<close> fails with status 500 and the
  detail "Database not configured", whatever the request and whatever the libraries
  would do, and the store handle is left as it was: no collection is read or written.
\<close>

theorem handlers_fail_fast:
  "register E None p = (Inl (HTTPException 500 ''Database not configured''), None)
   \<and> login E None p = (Inl (HTTPException 500 ''Database not configured''), None)
   \<and> track_event E None ev a = (Inl (HTTPException 500 ''Database not configured''), None)
   \<and> analytics_summary None a = (Inl (HTTPException 500 ''Database not configured''), None)"
  by (simp add: register_def login_def track_event_def analytics_summary_def not_configured_def)

section \<open>The analytics summary\<close>

subsection \<open>The stages of the pipeline\<close>

lemma count_list_map_filter: "count_list (map f xs) t = length (filter (\<lambda>d. f d = t) xs)"
  by (induction xs) auto

lemma group_keys: "map fst (group_stage docs) = remdups (map type_of_doc docs)"
  by (simp add: group_stage_def Let_def comp_def)

lemma group_distinct: "distinct (map fst (group_stage docs))"
  by (simp add: group_keys)

lemma group_keys_set: "fst ` set (group_stage docs) = type_of_doc ` set docs"
proof -
  have "set (map fst (group_stage docs)) = type_of_doc ` set docs"
    unfolding group_keys by simp
  then show ?thesis by simp
qed

lemma group_counts:
  "(t, n) \<in> set (group_stage docs) \<Longrightarrow> n = length (filter (\<lambda>d. type_of_doc d = t) docs) \<and> 0 < n"
  by (auto simp: group_stage_def Let_def count_list_map_filter filter_empty_conv)

lemma group_total: "sum_list (map snd (group_stage docs)) = length docs"
proof -
  let ?ts = "map type_of_doc docs"
  have "sum_list (map snd (group_stage docs)) = sum_list (map (count_list ?ts) (remdups ?ts))"
    by (simp add: group_stage_def Let_def comp_def)
  also have "\<dots> = sum (count_list ?ts) (set ?ts)"
    by (subst sum_list_distinct_conv_sum_set) auto
  also have "\<dots> = length ?ts"
    by (rule sum_count_set) auto
  finally show ?thesis by simp
qed

lemma insert_desc_set: "set (insert_desc r xs) = insert r (set xs)"
  by (induction xs) auto

lemma insert_desc_sum: "sum_list (map snd (insert_desc r xs)) = snd r + sum_list (map snd xs)"
  by (induction xs) auto

lemma insert_desc_length: "length (insert_desc r xs) = Suc (length xs)"
  by (induction xs) auto

lemma insert_desc_distinct:
  "distinct (map fst xs) \<Longrightarrow> fst r \<notin> fst ` set xs \<Longrightarrow> distinct (map fst (insert_desc r xs))"
  by (induction xs) (auto simp: insert_desc_set)

lemma insert_desc_sorted:
  "sorted_wrt (\<lambda>a b. snd b \<le> snd a) xs \<Longrightarrow> sorted_wrt (\<lambda>a b. snd b \<le> snd a) (insert_desc r xs)"
  by (induction xs) (auto simp: insert_desc_set)

lemma sort_set: "set (sort_stage rows) = set rows"
  by (induction rows) (auto simp: sort_stage_def insert_desc_set)

lemma sort_sum: "sum_list (map snd (sort_stage rows)) = sum_list (map snd rows)"
  by (induction rows) (auto simp: sort_stage_def insert_desc_sum)

lemma sort_distinct: "distinct (map fst rows) \<Longrightarrow> distinct (map fst (sort_stage rows))"
proof (induction rows)
  case Nil then show ?case by (simp add: sort_stage_def)
next
  case (Cons r rows)
  have "fst r \<notin> fst ` set (sort_stage rows)" using Cons.prems by (simp add: sort_set)
  moreover have "distinct (map fst (sort_stage rows))" using Cons by simp
  ultimately have "distinct (map fst (insert_desc r (sort_stage rows)))"
    by (rule insert_desc_distinct[rotated])
  then show ?case by (simp add: sort_stage_def)
qed

lemma sort_sorted: "sorted_wrt (\<lambda>a b. snd b \<le> snd a) (sort_stage rows)"
  by (induction rows) (auto simp: sort_stage_def insert_desc_sorted)

lemma dict_set_fresh: "k \<notin> fst ` set d \<Longrightarrow> dict_set d k v = d @ [(k, v)]"
  by (induction d) auto

lemma fold_dict_set:
  "distinct (map fst (acc @ rows)) \<Longrightarrow>
   fold (\<lambda>r d. dict_set d (fst r) (snd r)) rows acc = acc @ rows"
proof (induction rows arbitrary: acc)
  case Nil then show ?case by simp
next
  case (Cons r rows)
  have fresh: "fst r \<notin> fst ` set acc" using Cons.prems by auto
  have "distinct (map fst ((acc @ [r]) @ rows))" using Cons.prems by simp
  from Cons.IH[OF this] show ?case using fresh by (simp add: dict_set_fresh)
qed

lemma dict_of_rows_distinct: "distinct (map fst rows) \<Longrightarrow> dict_of_rows rows = rows"
  using fold_dict_set[of "[]" rows] by (simp add: dict_of_rows_def)

lemma take_sorted_dominates:
  assumes "sorted_wrt P xs" "x \<in> set (take n xs)" "y \<in> set xs" "y \<notin> set (take n xs)"
  shows "P x y"
proof -
  have "y \<in> set (drop n xs)" using assms(3,4) by (metis Un_iff append_take_drop_id set_append)
  moreover have "sorted_wrt P (take n xs @ drop n xs)" using assms(1) by simp
  ultimately show ?thesis using assms(2) unfolding sorted_wrt_append by blast
qed


lemma sort_length: "length (sort_stage rows) = length rows"
  by (induction rows) (auto simp: sort_stage_def insert_desc_length)

lemma sum_list_pos_zero:
  "\<forall>r \<in> set xs. 0 < snd r \<Longrightarrow> sum_list (map snd xs) = (0::nat) \<longleftrightarrow> xs = []"
  by (cases xs) auto

subsection \<open>The handler\<close>

lemma sample_summary:
  "analytics_summary (Some sample_events) None =
     (Inr (Summary 4 [(JStr ''click'', 3), (JStr ''view'', 1)]), Some sample_events)"
  by (simp add: analytics_summary_def aggregate_def limit_stage_def sort_stage_def
      group_stage_def type_of_doc_def dict_get_def dict_of_rows_def sample_events_def Let_def)

text \<open>
  C1. For every state of the event collection, \<open>analytics_summary\<close> succeeds, leaves the
  store as it was, and returns at most 10 groups in \<open>byType\<close>, each type once, ordered by
  count, largest first. Each returned count is the number of stored events of that type.
  The groups are those of the highest counts: a type that has events and is not returned
  is only left out when 10 groups are returned, each with a count at least as large.
  \<open>total\<close> is the sum of the returned counts, so it never exceeds the number of stored
  events and equals it exactly when the events have at most 10 distinct types.
\<close>

theorem analytics_summary_top10:
  "\<exists>total byType.
     analytics_summary (Some st) a = (Inr (Summary total byType), Some st)
     \<and> length byType \<le> 10
     \<and> distinct (map fst byType)
     \<and> sorted_wrt (\<lambda>r r'. snd r' \<le> snd r) byType
     \<and> (\<forall>r \<in> set byType. snd r = event_count st (fst r) \<and> 0 < snd r)
     \<and> (\<forall>t. 0 < event_count st t \<and> t \<notin> fst ` set byType \<longrightarrow>
            length byType = 10 \<and> (\<forall>r \<in> set byType. event_count st t \<le> snd r))
     \<and> total = sum_list (map snd byType)
     \<and> total \<le> length (st ''event'')
     \<and> (total = length (st ''event'') \<longleftrightarrow> card (type_of_doc ` set (st ''event'')) \<le> 10)"
proof -
  define docs where "docs = st ''event''"
  define rows where "rows = sort_stage (group_stage docs)"
  define top where "top = take 10 rows"
  have rows_distinct: "distinct (map fst rows)"
    unfolding rows_def by (rule sort_distinct) (rule group_distinct)
  have rows_sorted: "sorted_wrt (\<lambda>r r'. snd r' \<le> snd r) rows"
    unfolding rows_def by (rule sort_sorted)
  have rows_set: "set rows = set (group_stage docs)"
    unfolding rows_def by (rule sort_set)
  have rows_counts: "snd r = event_count st (fst r) \<and> 0 < snd r" if "r \<in> set rows" for r
  proof -
    have "(fst r, snd r) \<in> set (group_stage docs)" using that rows_set by simp
    from group_counts[OF this] show ?thesis
      unfolding event_count_def docs_def by blast
  qed
  have rows_total: "sum_list (map snd rows) = length docs"
    unfolding rows_def by (simp add: sort_sum group_total)
  have rows_length: "length rows = card (type_of_doc ` set docs)"
  proof -
    have "length rows = length (map fst (group_stage docs))"
      unfolding rows_def by (simp add: sort_length)
    also have "\<dots> = card (set (map fst (group_stage docs)))"
      using group_distinct[of docs] by (simp only: distinct_card)
    also have "\<dots> = card (type_of_doc ` set docs)"
      using group_keys_set[of docs] by simp
    finally show ?thesis .
  qed
  have top_distinct: "distinct (map fst top)"
    unfolding top_def using rows_distinct by (simp add: take_map[symmetric])
  have top_sub: "set top \<subseteq> set rows"
    unfolding top_def by (rule set_take_subset)
  have split: "rows = top @ drop 10 rows" unfolding top_def by simp
  have total_split: "length docs = sum_list (map snd top) + sum_list (map snd (drop 10 rows))"
    using rows_total by (subst (asm) split) simp
  have res: "analytics_summary (Some st) a = (Inr (Summary (sum_list (map snd top)) top), Some st)"
    using top_distinct
    by (simp add: analytics_summary_def aggregate_def limit_stage_def Let_def
        dict_of_rows_distinct top_def rows_def docs_def)
  have c1: "length top \<le> 10" unfolding top_def by simp
  have c3: "sorted_wrt (\<lambda>r r'. snd r' \<le> snd r) top"
    unfolding top_def using rows_sorted by (rule sorted_wrt_take)
  have c4: "\<forall>r \<in> set top. snd r = event_count st (fst r) \<and> 0 < snd r"
    using rows_counts top_sub by blast
  have c5: "length top = 10 \<and> (\<forall>r \<in> set top. event_count st t \<le> snd r)"
    if pos: "0 < event_count st t" and out: "t \<notin> fst ` set top" for t
  proof -
    have "t \<in> type_of_doc ` set docs"
      using pos by (auto simp: event_count_def docs_def filter_empty_conv)
    then have "t \<in> fst ` set rows" using group_keys_set[of docs] rows_set by simp
    then obtain y where y: "y \<in> set rows" "fst y = t" by auto
    have y_out: "y \<notin> set top" using out y by auto
    have y_cnt: "snd y = event_count st t" using rows_counts[OF y(1)] y(2) by simp
    have dom: "\<forall>r \<in> set top. event_count st t \<le> snd r"
    proof
      fix r assume "r \<in> set top"
      then have "snd y \<le> snd r"
        using take_sorted_dominates[OF rows_sorted, of r 10 y] y(1) y_out
        by (simp add: top_def)
      then show "event_count st t \<le> snd r" using y_cnt by simp
    qed
    have "10 < length rows"
    proof (rule ccontr)
      assume "\<not> 10 < length rows"
      then have "top = rows" by (simp add: top_def)
      then show False using y(1) y_out by simp
    qed
    then have "length top = 10" by (simp add: top_def)
    then show ?thesis using dom by simp
  qed
  have c7: "sum_list (map snd top) \<le> length docs" using total_split by simp
  have c8: "sum_list (map snd top) = length docs \<longleftrightarrow> card (type_of_doc ` set docs) \<le> 10"
  proof -
    have "\<forall>r \<in> set (drop 10 rows). 0 < snd r"
      using rows_counts by (meson in_set_dropD)
    then have "sum_list (map snd (drop 10 rows)) = 0 \<longleftrightarrow> drop 10 rows = []"
      by (rule sum_list_pos_zero)
    then have "sum_list (map snd top) = length docs \<longleftrightarrow> length rows \<le> 10"
      using total_split by auto
    then show ?thesis by (simp add: rows_length)
  qed
  show ?thesis
    using res c1 top_distinct c3 c4 c5 c7 c8 unfolding docs_def by blast
qed

theorem analytics_summary_top10_witness:
  "\<exists>total byType.
     analytics_summary (Some sample_events) None
       = (Inr (Summary total byType), Some sample_events)
     \<and> byType = [(JStr ''click'', 3), (JStr ''view'', 1)]
     \<and> total = 4
     \<and> length byType \<le> 10
     \<and> sorted_wrt (\<lambda>r r'. snd r' \<le> snd r) byType
     \<and> total = sum_list (map snd byType)"
  using analytics_summary_top10 [of sample_events None] sample_summary by auto

section \<open>The token library: what is written is read back\<close>

subsection \<open>base64url\<close>

lemma b64_value_char: "n < 64 \<Longrightarrow> b64_value (b64_char n) = Some n"
  by (auto simp: b64_value_def b64_char_def Let_def)

lemma b64_char_not_dot: "n < 64 \<Longrightarrow> b64_char n \<noteq> CHR ''.''"
  by (auto simp: b64_char_def dest!: arg_cong[where f="of_char :: char \<Rightarrow> nat"])

lemma sextets_bound: "\<forall>b \<in> set bs. b < 256 \<Longrightarrow> \<forall>s \<in> set (sextets bs). s < 64"
  by (induction bs rule: sextets.induct) auto

lemma octets_sextets: "\<forall>b \<in> set bs. b < 256 \<Longrightarrow> octets (sextets bs) = Some bs"
  by (induction bs rule: sextets.induct) auto

lemma those_b64: "\<forall>s \<in> set ss. s < 64 \<Longrightarrow> those_opt (map b64_value (map b64_char ss)) = Some ss"
  by (induction ss) (auto simp: b64_value_char)

lemma base64url_roundtrip: "base64url_decode (base64url_encode s) = Some s"
proof -
  let ?bs = "map of_char s :: nat list"
  have b: "\<forall>b \<in> set ?bs. b < 256" by auto
  have "those_opt (map b64_value (map b64_char (sextets ?bs))) = Some (sextets ?bs)"
    by (rule those_b64) (rule sextets_bound[OF b])
  then show ?thesis
    by (simp add: base64url_decode_def base64url_encode_def octets_sextets[OF b] comp_def)
qed

lemma base64url_no_dot: "CHR ''.'' \<notin> set (base64url_encode s)"
proof -
  let ?bs = "map of_char s :: nat list"
  have b: "\<forall>b \<in> set ?bs. b < 256" by auto
  show ?thesis using sextets_bound[OF b] b64_char_not_dot
    by (fastforce simp: base64url_encode_def)
qed

subsection \<open>JSON\<close>

lemma hex_value_digit: "n < 16 \<Longrightarrow> hex_value (hex_digit n) = Some n"
  by (auto simp: hex_value_def hex_digit_def Let_def)

lemma hex4_byte:
  "n < 256 \<Longrightarrow> hex4 (CHR ''0'') (CHR ''0'') (hex_digit (n div 16)) (hex_digit (n mod 16)) = Some n"
proof -
  assume "n < 256"
  then have "n div 16 < 16" by simp
  then show ?thesis
    by (simp add: hex4_def hex_value_digit) (simp add: hex_value_def)
qed

lemma char_by_code: "(of_char c :: nat) = of_char d \<Longrightarrow> c = d"
  by (simp only: of_char_eq_iff)

lemma split_cases:
  fixes c :: char
  shows "c = CHR 0x22 \<or> c = CHR 0x5C \<or> c = CHR 0x0A \<or> c = CHR 0x0D \<or> c = CHR 0x09
     \<or> c = CHR 0x08 \<or> c = CHR 0x0C
     \<or> (c \<noteq> CHR 0x22 \<and> c \<noteq> CHR 0x5C \<and> (of_char c :: nat) \<notin> {10, 13, 9, 8, 12}
          \<and> ((of_char c :: nat) < 32 \<or> 126 < (of_char c :: nat)))
     \<or> (c \<noteq> CHR 0x22 \<and> c \<noteq> CHR 0x5C \<and> 32 \<le> (of_char c :: nat) \<and> (of_char c :: nat) \<le> 126)"
proof -
  have "(of_char c :: nat) = 10 \<Longrightarrow> c = CHR 0x0A" by (rule char_by_code) simp
  moreover have "(of_char c :: nat) = 13 \<Longrightarrow> c = CHR 0x0D" by (rule char_by_code) simp
  moreover have "(of_char c :: nat) = 9 \<Longrightarrow> c = CHR 0x09" by (rule char_by_code) simp
  moreover have "(of_char c :: nat) = 8 \<Longrightarrow> c = CHR 0x08" by (rule char_by_code) simp
  moreover have "(of_char c :: nat) = 12 \<Longrightarrow> c = CHR 0x0C" by (rule char_by_code) simp
  ultimately show ?thesis by (cases "(of_char c :: nat) < 32") auto
qed

lemma loads_chars_escape: "loads_chars (escape_char c @ t) = push c (loads_chars t)"
proof -
  let ?n = "of_char c :: nat"
  have n: "?n < 256" by simp
  have c: "char_of ?n = c" by simp
  from split_cases[of c] consider
      (lit) "c \<in> {CHR 0x22, CHR 0x5C, CHR 0x0A, CHR 0x0D, CHR 0x09, CHR 0x08, CHR 0x0C}"
    | (u) "c \<noteq> CHR 0x22" "c \<noteq> CHR 0x5C" "?n \<notin> {10, 13, 9, 8, 12}" "?n < 32 \<or> 126 < ?n"
    | (plain) "c \<noteq> CHR 0x22" "c \<noteq> CHR 0x5C" "32 \<le> ?n" "?n \<le> 126"
    by blast
  then show ?thesis
  proof cases
    case lit
    then show ?thesis by (auto simp: escape_char_def unescape_def)
  next
    case u
    then have "escape_char c = [CHR 0x5C, CHR ''u'', CHR ''0'', CHR ''0'',
                                hex_digit (?n div 16), hex_digit (?n mod 16)]"
      by (auto simp: escape_char_def Let_def)
    then show ?thesis using hex4_byte[OF n] n by (simp add: c)
  next
    case plain
    then have "escape_char c = [c]" by (auto simp: escape_char_def Let_def)
    then show ?thesis using plain by simp
  qed
qed

lemma loads_chars_dumps:
  "loads_chars (concat (map escape_char s) @ CHR 0x22 # t) = Some (s, t)"
  by (induction s) (simp_all add: loads_chars_escape push_def)

lemma digit_value_char: "d < 10 \<Longrightarrow> digit_value (char_of (48 + d)) = Some d"
  by (simp add: digit_value_def)

lemma loads_digits_append:
  "\<forall>c \<in> set ds. digit_value c \<noteq> None \<Longrightarrow>
   (case t of [] \<Rightarrow> True | c # _ \<Rightarrow> digit_value c = None) \<Longrightarrow>
   loads_digits acc (ds @ t) = (foldl (\<lambda>a c. 10 * a + the (digit_value c)) acc ds, t)"
proof (induction ds arbitrary: acc)
  case Nil
  then show ?case by (cases t) auto
next
  case (Cons d ds)
  then show ?case by auto
qed

lemma digits_are_digits: "\<forall>c \<in> set (digits n). digit_value c \<noteq> None"
proof (induction n rule: digits.induct)
  case (1 n)
  then show ?case
    by (subst digits.simps) (auto simp: digit_value_char)
qed

lemma digits_value: "foldl (\<lambda>a c. 10 * a + the (digit_value c)) 0 (digits n) = n"
proof (induction n rule: digits.induct)
  case (1 n)
  show ?case
  proof (cases "n < 10")
    case True
    then show ?thesis by (subst digits.simps) (simp add: digit_value_char)
  next
    case False
    then show ?thesis using 1 by (subst digits.simps) (simp add: digit_value_char)
  qed
qed

lemma digits_head:
  "\<exists>c cs. digits n = c # cs \<and> (\<exists>d. digit_value c = Some d \<and> (d = 0 \<longrightarrow> n = 0 \<and> cs = []))"
proof (induction n rule: digits.induct)
  case (1 n)
  show ?case
  proof (cases "n < 10")
    case True
    then show ?thesis by (subst digits.simps) (simp add: digit_value_char)
  next
    case False
    then have "n div 10 \<noteq> 0" by simp
    with 1 False obtain c cs d where
      "digits (n div 10) = c # cs" "digit_value c = Some d" "d \<noteq> 0" by blast
    then show ?thesis using False by (subst digits.simps) simp
  qed
qed

lemma loads_nat_digits:
  assumes "case t of [] \<Rightarrow> True | c # _ \<Rightarrow> digit_value c = None"
  shows "loads_nat (digits n @ t) = Some (n, t)"
proof -
  obtain c cs d where h: "digits n = c # cs" "digit_value c = Some d" "d = 0 \<longrightarrow> n = 0 \<and> cs = []"
    using digits_head[of n] by blast
  have full: "loads_digits 0 (digits n @ t) = (n, t)"
    using loads_digits_append[OF digits_are_digits assms, where n1=n and acc=0] by (simp add: digits_value)
  show ?thesis
  proof (cases "d = 0")
    case True
    then show ?thesis using h by (simp add: loads_nat_def)
  next
    case False
    then show ?thesis using h full by (simp add: loads_nat_def)
  qed
qed

lemma json_dumps_obj: "json_dumps (JObj kvs) = ''{'' @ join '','' (map item kvs) @ ''}''"
proof -
  have "(\<lambda>(k, v). dumps_str k @ '':'' @ json_dumps v) = item"
    by (auto simp: item_def fun_eq_iff)
  then show ?thesis by simp
qed

lemma closes_not_digit: "closes t \<Longrightarrow> (case t of [] \<Rightarrow> True | c # _ \<Rightarrow> digit_value c = None)"
  by (auto simp: closes_def digit_value_def split: list.splits)

lemma closes_not_float: "closes t \<Longrightarrow> \<not> starts_float t"
  by (auto simp: closes_def starts_float_def split: list.splits)

lemma digit_not_letter:
  "digit_value c = Some d \<Longrightarrow>
   c \<noteq> CHR 0x22 \<and> c \<noteq> CHR ''-'' \<and> c \<noteq> CHR ''n'' \<and> c \<noteq> CHR ''t'' \<and> c \<noteq> CHR ''f''"
  by (auto simp: digit_value_def Let_def split: if_splits)

lemma loads_int_dumps:
  assumes "closes t"
  shows "loads_int (dumps_int i @ t) = Some (i, t)"
proof -
  note nd = closes_not_digit[OF assms]
  show ?thesis
  proof (cases "i < 0")
    case True
    then show ?thesis
      using loads_nat_digits[OF nd, of "nat (- i)"] by (simp add: loads_int_def dumps_int_def)
  next
    case False
    obtain c cs d where h: "digits (nat i) = c # cs" "digit_value c = Some d"
      using digits_head[of "nat i"] by blast
    have "c \<noteq> CHR ''-''" using digit_not_letter[OF h(2)] by simp
    moreover have "loads_nat (c # cs @ t) = Some (nat i, t)"
      using loads_nat_digits[OF nd, of "nat i"] h(1) by simp
    ultimately show ?thesis using False h(1) by (simp add: loads_int_def dumps_int_def)
  qed
qed

lemma dumps_int_head:
  "\<exists>c cs. dumps_int i = c # cs \<and> c \<noteq> CHR 0x22 \<and> c \<noteq> CHR ''n'' \<and> c \<noteq> CHR ''t'' \<and> c \<noteq> CHR ''f''"
proof (cases "i < 0")
  case True
  then show ?thesis by (simp add: dumps_int_def)
next
  case False
  obtain c cs d where h: "digits (nat i) = c # cs" "digit_value c = Some d"
    using digits_head[of "nat i"] by blast
  then show ?thesis using False digit_not_letter[OF h(2)] by (simp add: dumps_int_def)
qed

lemma loads_value_dumps:
  assumes "flat v" "closes t"
  shows "loads_value (json_dumps v @ t) = Some (v, t)"
proof (cases v)
  case JNull
  then show ?thesis by (simp add: loads_value_def)
next
  case (JBool b)
  then show ?thesis by (simp add: loads_value_def)
next
  case (JInt i)
  obtain c cs where h: "dumps_int i = c # cs" "c \<noteq> CHR 0x22" "c \<noteq> CHR ''n''"
      "c \<noteq> CHR ''t''" "c \<noteq> CHR ''f''"
    using dumps_int_head[of i] by blast
  have "loads_int (c # cs @ t) = Some (i, t)"
    using loads_int_dumps[OF assms(2), of i] h(1) by simp
  then show ?thesis
    using JInt h closes_not_float[OF assms(2)] by (simp add: loads_value_def)
next
  case (JStr s)
  then show ?thesis by (simp add: loads_value_def dumps_str_def loads_chars_dumps)
next
  case (JArr vs)
  then show ?thesis using assms by simp
next
  case (JObj kvs)
  then show ?thesis using assms by simp
qed

lemma loads_member:
  assumes "flat (snd kv)" "closes t"
  shows "loads_members (Suc n) acc (item kv @ t) =
           (if hd t = CHR '','' then loads_members n (dict_set acc (fst kv) (snd kv)) (tl t)
            else Some (dict_set acc (fst kv) (snd kv), tl t))"
proof -
  obtain c t' where t: "t = c # t'" "c = CHR '','' \<or> c = CHR ''}''"
    using assms(2) by (auto simp: closes_def split: list.splits)
  have v: "loads_value (json_dumps (snd kv) @ t) = Some (snd kv, t)"
    by (rule loads_value_dumps[OF assms])
  show ?thesis
    using t v by (auto simp: item_def dumps_str_def loads_chars_dumps)
qed

lemma loads_members_dumps:
  "kvs \<noteq> [] \<Longrightarrow> \<forall>kv \<in> set kvs. flat (snd kv) \<Longrightarrow> length kvs \<le> n \<Longrightarrow>
   loads_members n acc (join '','' (map item kvs) @ CHR ''}'' # t)
     = Some (fold (\<lambda>kv d. dict_set d (fst kv) (snd kv)) kvs acc, t)"
proof (induction kvs arbitrary: n acc)
  case Nil
  then show ?case by simp
next
  case (Cons kv kvs)
  obtain m where n: "n = Suc m" using Cons.prems(3) by (cases n) auto
  show ?case
  proof (cases kvs)
    case Nil
    then show ?thesis
      using loads_member[of kv "CHR ''}'' # t" m acc] Cons.prems n by (simp add: closes_def)
  next
    case (Cons kv' kvs')
    have step: "loads_members (Suc m) acc (item kv @ CHR '','' # join '','' (map item kvs) @ CHR ''}'' # t)
                  = loads_members m (dict_set acc (fst kv) (snd kv)) (join '','' (map item kvs) @ CHR ''}'' # t)"
      using loads_member[of kv "CHR '','' # join '','' (map item kvs) @ CHR ''}'' # t" m acc] Cons.prems
      by (simp add: closes_def)
    have "loads_members m (dict_set acc (fst kv) (snd kv)) (join '','' (map item kvs) @ CHR ''}'' # t)
            = Some (fold (\<lambda>kv d. dict_set d (fst kv) (snd kv)) kvs (dict_set acc (fst kv) (snd kv)), t)"
      using Cons.IH[of m] Cons.prems n Cons by simp
    then show ?thesis using step n Cons by simp
  qed
qed

lemma join_length: "\<forall>x \<in> set xs. x \<noteq> [] \<Longrightarrow> length xs \<le> length (join sep xs)"
proof (induction sep xs rule: join.induct)
  case (1 sep)
  then show ?case by simp
next
  case (2 sep x)
  then show ?case by (cases x) auto
next
  case (3 sep x y ys)
  then have "length (y # ys) \<le> length (join sep (y # ys))" by simp
  moreover have "1 \<le> length x" using 3(2) by (cases x) auto
  ultimately show ?case by simp
qed

lemma item_nonempty: "item kv \<noteq> []"
  by (simp add: item_def dumps_str_def)

lemma item_head: "\<exists>r. item kv = CHR 0x22 # r"
  by (simp add: item_def dumps_str_def)

lemma json_loads_dumps:
  assumes "\<forall>kv \<in> set kvs. flat (snd kv)" "distinct (map fst kvs)"
  shows "json_loads (json_dumps (JObj kvs)) = Some (JObj kvs)"
proof (cases kvs)
  case Nil
  then show ?thesis by (simp add: json_loads_def)
next
  case (Cons kv kvs')
  let ?body = "join '','' (map item kvs) @ ''}''"
  have ne: "kvs \<noteq> []" using Cons by simp
  obtain r where "item kv = CHR 0x22 # r" using item_head by blast
  then have "\<exists>r'. ?body = CHR 0x22 # r'" using Cons by (cases kvs') auto
  then have nclose: "?body \<noteq> ''}''" by auto
  have "length kvs \<le> length (join '','' (map item kvs))"
    using join_length[of "map item kvs" "'',''"] by (simp add: item_nonempty)
  then have len: "length kvs \<le> length ?body" by simp
  have "loads_members (length ?body) [] (join '','' (map item kvs) @ CHR ''}'' # [])
          = Some (fold (\<lambda>kv d. dict_set d (fst kv) (snd kv)) kvs [], [])"
    by (rule loads_members_dumps[OF ne assms(1) len])
  moreover have "fold (\<lambda>kv d. dict_set d (fst kv) (snd kv)) kvs [] = kvs"
    using fold_dict_set[of "[]" kvs] assms(2) by simp
  ultimately show ?thesis
    using nclose by (simp add: json_loads_def json_dumps_obj del: json_dumps.simps)
qed

subsection \<open>Tokens\<close>

lemma split_first_append: "c \<notin> set a \<Longrightarrow> split_first c (a @ [c] @ b) = Some (a, b)"
  by (induction a) (auto simp: split_first_def)

lemma split_last_append: "c \<notin> set b \<Longrightarrow> split_last c (a @ [c] @ b) = Some (a, b)"
  using split_first_append[of c "rev b" "rev a"] by (simp add: split_last_def)

lemma jose_roundtrip:
  assumes alg: "alg \<in> set hs_algorithms" "alg \<in> set algorithms"
      and flat: "\<forall>kv \<in> set claims. flat (snd kv)" "distinct (map fst claims)"
      and sub: "validate_sub claims"
  shows "\<exists>token. jose_encode hmac claims key alg = Inr token
           \<and> jose_decode hmac token key algorithms = Inr claims"
proof -
  let ?header = "[(''alg'', JStr alg), (''typ'', JStr ''JWT'')]"
  let ?h = "base64url_encode (json_dumps (JObj ?header))"
  let ?c = "base64url_encode (json_dumps (JObj claims))"
  let ?sig = "hmac alg (utf8 key) (?h @ ''.'' @ ?c)"
  let ?token = "(?h @ ''.'' @ ?c) @ ''.'' @ base64url_encode ?sig"
  have enc: "jose_encode hmac claims key alg = Inr ?token"
    using alg(1) by (simp add: jose_encode_def Let_def del: json_dumps.simps)
  have s1: "split_last (CHR ''.'') ?token = Some (?h @ ''.'' @ ?c, base64url_encode ?sig)"
    by (rule split_last_append) (rule base64url_no_dot)
  have s2: "split_first (CHR ''.'') (?h @ ''.'' @ ?c) = Some (?h, ?c)"
    by (rule split_first_append) (rule base64url_no_dot)
  have hd: "json_loads (json_dumps (JObj ?header)) = Some (JObj ?header)"
    by (rule json_loads_dumps) simp_all
  have cl: "json_loads (json_dumps (JObj claims)) = Some (JObj claims)"
    by (rule json_loads_dumps[OF flat])
  have "jose_decode hmac ?token key algorithms = Inr claims"
    unfolding jose_decode_def
    by (simp only: s1 s2 base64url_roundtrip hd cl option.case prod.case json.case)
       (simp add: dict_get_def alg sub)
  then show ?thesis using enc by blast
qed

section \<open>The password library: a fresh hash is well formed\<close>

lemma dollar_not_bcrypt64: "bcrypt64 s \<Longrightarrow> CHR ''$'' \<notin> set s"
  by (auto simp: bcrypt64_def bcrypt64_char_def list_all_iff)

lemma bcrypt64_value_less: "bcrypt64_char c \<Longrightarrow> bcrypt64_value c < 64"
  by (auto simp: bcrypt64_char_def bcrypt64_value_def Let_def)

lemma bcrypt64_digit_char: "n < 64 \<Longrightarrow> bcrypt64_char (bcrypt64_digit n)"
  by (auto simp: bcrypt64_char_def bcrypt64_digit_def Let_def)

lemma bcrypt64_value_digit: "n < 64 \<Longrightarrow> bcrypt64_value (bcrypt64_digit n) = n"
  by (auto simp: bcrypt64_value_def bcrypt64_digit_def Let_def)

lemma repair_length: "length (repair_unused b s) = length s"
  by (simp add: repair_unused_def)

lemma repair_bcrypt64: "bcrypt64 s \<Longrightarrow> bcrypt64 (repair_unused b s)"
proof (cases "s = []")
  case True
  then show ?thesis by (simp add: repair_unused_def bcrypt64_def)
next
  case False
  assume s: "bcrypt64 s"
  then have "bcrypt64_char (last s)" using False by (simp add: bcrypt64_def list_all_iff)
  then have "bcrypt64_value (last s) - bcrypt64_value (last s) mod 2 ^ b < 64"
    using bcrypt64_value_less[of "last s"] by simp
  then have "bcrypt64_char
      (bcrypt64_digit (bcrypt64_value (last s) - bcrypt64_value (last s) mod 2 ^ b))"
    by (rule bcrypt64_digit_char)
  moreover have "list_all bcrypt64_char (butlast s)"
    using s by (auto simp: bcrypt64_def list_all_iff dest: in_set_butlastD)
  ultimately show ?thesis using False by (simp add: repair_unused_def bcrypt64_def)
qed

lemma repair_idem: "bcrypt64 s \<Longrightarrow> repair_unused b (repair_unused b s) = repair_unused b s"
proof (cases "s = []")
  case True
  then show ?thesis by (simp add: repair_unused_def)
next
  case False
  assume s: "bcrypt64 s"
  define v where "v = bcrypt64_value (last s) - bcrypt64_value (last s) mod 2 ^ b"
  have "bcrypt64_char (last s)" using s False by (simp add: bcrypt64_def list_all_iff)
  then have v: "v < 64" using bcrypt64_value_less[of "last s"] by (simp add: v_def)
  have "v mod 2 ^ b = 0" unfolding v_def by (simp add: minus_mod_eq_mult_div)
  then have "bcrypt64_value (bcrypt64_digit v) - bcrypt64_value (bcrypt64_digit v) mod 2 ^ b = v"
    by (simp add: bcrypt64_value_digit[OF v])
  then show ?thesis using False by (simp add: repair_unused_def v_def)
qed

lemma wf_salt_repair: "wf_salt salt \<Longrightarrow> wf_salt (repair_unused 4 salt)"
  by (simp add: wf_salt_def repair_length repair_bcrypt64)

lemma identify_fresh: "identify (''$2b$12$'' @ t)"
  by (simp add: identify_def bcrypt_idents_def startswith_def)

lemma find_fresh: "find (startswith (''$2b$12$'' @ t)) bcrypt_idents = Some ''$2b$''"
  by (simp add: bcrypt_idents_def startswith_def)

lemma two12: "two_digits ''12'' = Some 12" by (simp add: two_digits_def digit_value_def)

lemma split_fresh:
  assumes "CHR ''$'' \<notin> set data"
  shows "split_first (CHR ''$'') (drop (length ''$2b$'') (''$2b$12$'' @ data)) = Some (''12'', data)"
proof -
  have "split_first (CHR ''$'') (''12'' @ [CHR ''$''] @ data) = Some (''12'', data)"
    by (rule split_first_append) simp
  then show ?thesis by simp
qed

lemma from_string_fresh:
  assumes "wf_salt salt" "length chk = 31" "bcrypt64 chk"
  shows "from_string (''$2b$12$'' @ salt @ chk)
           = Some (''$2b$'', 12, repair_unused 4 salt, repair_unused 2 chk)"
proof -
  have nd: "CHR ''$'' \<notin> set (salt @ chk)"
    using assms dollar_not_bcrypt64 by (auto simp: wf_salt_def)
  have len: "length (salt @ chk) = 53" using assms by (simp add: wf_salt_def)
  have ok: "bcrypt64 (salt @ chk)" using assms by (simp add: wf_salt_def bcrypt64_def)
  have tk: "take 22 (salt @ chk) = salt" "drop 22 (salt @ chk) = chk"
    using assms by (simp_all add: wf_salt_def)
  have rounds: "(4::nat) \<le> 12 \<and> (12::nat) \<le> 31" by simp
  have nx: "''$2b$'' \<noteq> ''$2x$''" by simp
  show ?thesis
    unfolding from_string_def
    by (simp only: find_fresh split_fresh[OF nd] two12 option.case prod.case len ok tk rounds
        nx if_False if_True simp_thms)
qed

lemma utf8_length: "length s \<le> length (utf8 s)"
  by (induction s) (auto simp: utf8_def Let_def)

lemma not_too_long: "length (utf8 p) \<le> 4096 \<Longrightarrow> \<not> too_long p"
  using utf8_length[of p] by (simp add: too_long_def MAX_PASSWORD_SIZE_def)

lemma identify_hash_text: "identify (hash_text bcrypt salt p)"
  unfolding hash_text_def by (rule identify_fresh)

lemma from_string_hash_text:
  assumes "wf_bcrypt bcrypt" "wf_salt salt"
  shows "from_string (hash_text bcrypt salt p)
           = Some (''$2b$'', 12, repair_unused 4 salt,
                   calc_checksum bcrypt ''$2b$'' 12 (repair_unused 4 salt) p)"
proof -
  let ?salt = "repair_unused 4 salt"
  let ?chk = "calc_checksum bcrypt ''$2b$'' 12 ?salt p"
  have chk: "length ?chk = 31" "bcrypt64 ?chk" "repair_unused 2 ?chk = ?chk"
    using assms(1) by (simp_all add: wf_bcrypt_def calc_checksum_def)
  have salt: "wf_salt ?salt" by (rule wf_salt_repair[OF assms(2)])
  have idem: "repair_unused 4 ?salt = ?salt"
    by (rule repair_idem) (use assms(2) in \<open>simp add: wf_salt_def\<close>)
  show ?thesis
    unfolding hash_text_def
    by (simp only: from_string_fresh[OF salt chk(1,2)] idem chk(3))
qed

lemma hash_then_verify:
  assumes "wf_bcrypt bcrypt" "wf_salt salt"
      and "length (utf8 p) \<le> 4096" "\<not> has_nul p" "length (utf8 q) \<le> 4096" "\<not> has_nul q"
  shows "passlib_hash bcrypt salt p = Inr (hash_text bcrypt salt p)
         \<and> passlib_verify bcrypt q (JStr (hash_text bcrypt salt p))
           = Inr (calc_checksum bcrypt ''$2b$'' 12 (repair_unused 4 salt) q
                  = calc_checksum bcrypt ''$2b$'' 12 (repair_unused 4 salt) p)"
proof -
  let ?salt = "repair_unused 4 salt"
  let ?chk = "calc_checksum bcrypt ''$2b$'' 12 ?salt p"
  have h: "passlib_hash bcrypt salt p = Inr (hash_text bcrypt salt p)"
    using assms(4) not_too_long[OF assms(3)] by (simp add: passlib_hash_def hash_text_def)
  have q: "has_nul q = False" "(MAX_PASSWORD_SIZE < length q) = False"
          "(MAX_PASSWORD_SIZE < length (utf8 q)) = False"
    using assms(5,6) utf8_length[of q] by (simp_all add: MAX_PASSWORD_SIZE_def)
  have v: "passlib_verify bcrypt q (JStr (hash_text bcrypt salt p))
           = Inr (calc_checksum bcrypt ''$2b$'' 12 ?salt q = ?chk)"
    unfolding passlib_verify_def
    by (simp only: json.case identify_hash_text from_string_hash_text[OF assms(1,2)] q
        if_False option.case prod.case simp_thms)
  show ?thesis using h v by (rule conjI)
qed

lemma demo_bcrypt_wf: "wf_bcrypt demo_bcrypt"
proof -
  have c: "bcrypt64_char (char_of (97 + n mod 26))" for n :: nat
  proof -
    have "(97 + n mod 26) mod 256 = 97 + n mod 26"
      by (rule mod_less) (simp add: less_le_trans[OF _ order_refl] add_strict_left_mono
            [of "n mod 26" 159 97, simplified])
    then show ?thesis by (simp add: bcrypt64_char_def Let_def)
  qed
  have d: "bcrypt64_char (CHR ''.'')" by (simp add: bcrypt64_char_def)
  have 1: "length (demo_bcrypt i r s k) = 31" for i r s k
    by (simp add: demo_bcrypt_def)
  have 2: "bcrypt64 (demo_bcrypt i r s k)" for i r s k
    using c d by (auto simp: demo_bcrypt_def bcrypt64_def list_all_iff dest!: in_set_takeD)
  have "repair_unused 2 (xs @ ''.'') = xs @ ''.''" for xs
    by (simp add: repair_unused_def bcrypt64_value_def bcrypt64_digit_def)
  then have 3: "repair_unused 2 (demo_bcrypt i r s k) = demo_bcrypt i r s k" for i r s k
    unfolding demo_bcrypt_def .
  show ?thesis unfolding wf_bcrypt_def using 1 2 3 by blast
qed

lemma demo_salt_repaired: "repair_unused 4 ''abcdefghijklmnopqrstuu'' = ''abcdefghijklmnopqrstuu''"
proof -
  have "bcrypt64_digit 48 = CHR ''u''"
    by (rule char_by_code) (simp add: bcrypt64_digit_def)
  then show ?thesis by (simp add: repair_unused_def bcrypt64_value_def)
qed

section \<open>Tokens in \<open>create_token\<close> and \<open>track_event\<close>\<close>

subsection \<open>Reading the header\<close>

lemma bearer_token: "drop 1 (dropWhile (\<lambda>c. c \<noteq> CHR '' '') (''Bearer '' @ token)) = token"
  by simp

lemma bearer_email_Bearer:
  "bearer_email E (Some (''Bearer '' @ token)) =
     (case jwt_decode E token (JWT_SECRET E) [JWT_ALG] of
        Inr payload \<Rightarrow> Inr (dict_get payload ''sub'')
      | Inl JWTError \<Rightarrow> Inr None
      | Inl e \<Rightarrow> Inl e)"
  by (simp add: bearer_email_def startswith_def Let_def)

lemma bearer_email_no_header: "bearer_email E None = Inr None"
  by (simp add: bearer_email_def)

lemma or_anonymous_nonempty: "or_anonymous em = JStr u \<Longrightarrow> u \<noteq> []"
  by (cases em) (auto split: if_splits)

lemma track_event_stores:
  "bearer_email E a = Inr em \<Longrightarrow> or_anonymous em = JStr u \<Longrightarrow>
   track_event E (Some st) ev a
     = (Inr (Status ''ok''),
        Some (st(''event'' := st ''event''
           @ [[(''user_id'', JStr u), (''type'', JStr (type ev)),
               (''properties'', JObj (or_empty (properties ev)))]])))"
  by (simp add: track_event_def create_document_def insert_one_def)

lemma track_event_field:
  assumes "bearer_email E a = Inr em" "or_anonymous em = JStr u"
  shows "\<exists>st' d. track_event E (Some st) ev a = (Inr (Status ''ok''), Some st')
           \<and> st' ''event'' = st ''event'' @ [d]
           \<and> dict_get d ''user_id'' = Some (JStr u)
           \<and> dict_get d ''type'' = Some (JStr (type ev))
           \<and> (\<forall>c. c \<noteq> ''event'' \<longrightarrow> st' c = st c)"
  unfolding track_event_stores[OF assms] by (simp add: dict_get_def)


subsection \<open>Tokens of the model\<close>

lemma reference_token:
  assumes "\<forall>kv \<in> set claims. flat (snd kv)" "distinct (map fst claims)" "validate_sub claims"
  shows "jwt_encode (reference_env hmac bcrypt salt secret now) claims secret JWT_ALG
           = Inr (token_for (reference_env hmac bcrypt salt secret now) claims)
         \<and> jwt_decode (reference_env hmac bcrypt salt secret now)
             (token_for (reference_env hmac bcrypt salt secret now) claims) secret [JWT_ALG]
           = Inr claims"
proof -
  have "JWT_ALG \<in> set hs_algorithms" "JWT_ALG \<in> set [JWT_ALG]"
    by (simp_all add: JWT_ALG_def hs_algorithms_def)
  from jose_roundtrip[OF this assms, of hmac secret]
  show ?thesis by (auto simp: reference_env_def token_for_def)
qed

lemma jose_wrong_key:
  assumes "alg \<in> set hs_algorithms"
      and "hmac alg (utf8 key)
             (base64url_encode (json_dumps (JObj [(''alg'', JStr alg), (''typ'', JStr ''JWT'')]))
              @ ''.'' @ base64url_encode (json_dumps (JObj claims)))
           \<noteq> hmac alg (utf8 key')
             (base64url_encode (json_dumps (JObj [(''alg'', JStr alg), (''typ'', JStr ''JWT'')]))
              @ ''.'' @ base64url_encode (json_dumps (JObj claims)))"
  shows "\<exists>token. jose_encode hmac claims key' alg = Inr token
           \<and> jose_decode hmac token key algorithms = Inl JWTError"
proof -
  let ?header = "[(''alg'', JStr alg), (''typ'', JStr ''JWT'')]"
  let ?h = "base64url_encode (json_dumps (JObj ?header))"
  let ?c = "base64url_encode (json_dumps (JObj claims))"
  let ?sig = "hmac alg (utf8 key') (?h @ ''.'' @ ?c)"
  let ?token = "(?h @ ''.'' @ ?c) @ ''.'' @ base64url_encode ?sig"
  have enc: "jose_encode hmac claims key' alg = Inr ?token"
    using assms(1) by (simp add: jose_encode_def Let_def del: json_dumps.simps)
  have s1: "split_last (CHR ''.'') ?token = Some (?h @ ''.'' @ ?c, base64url_encode ?sig)"
    by (rule split_last_append) (rule base64url_no_dot)
  have s2: "split_first (CHR ''.'') (?h @ ''.'' @ ?c) = Some (?h, ?c)"
    by (rule split_first_append) (rule base64url_no_dot)
  have hd: "json_loads (json_dumps (JObj ?header)) = Some (JObj ?header)"
    by (rule json_loads_dumps) simp_all
  have "jose_decode hmac ?token key algorithms = Inl JWTError"
    unfolding jose_decode_def s1 s2 base64url_roundtrip hd option.case prod.case json.case
    using assms(2) by (simp add: dict_get_def del: json_dumps.simps)
  then show ?thesis using enc by blast
qed

lemma demo_env_fields:
  "JWT_SECRET demo_env = ''dev-secret-change-me''"
  "utcnow_timestamp demo_env = 1700000000"
  "jwt_decode demo_env = jose_decode demo_hmac"
  "jwt_encode demo_env = jose_encode demo_hmac"
  by (simp_all add: demo_env_def reference_env_def)

lemma demo_token:
  assumes "\<forall>kv \<in> set claims. flat (snd kv)" "distinct (map fst claims)" "validate_sub claims"
  shows "jwt_decode demo_env (token_for demo_env claims) (JWT_SECRET demo_env) [JWT_ALG]
           = Inr claims"
  using reference_token[OF assms, of demo_hmac demo_bcrypt "''abcdefghijklmnopqrstuu''"
          "''dev-secret-change-me''" 1700000000]
  unfolding demo_env_def[symmetric] by (simp add: demo_env_fields)

lemma garbage_token:
  "jwt_decode demo_env ''garbage'' (JWT_SECRET demo_env) [JWT_ALG] = Inl JWTError"
  by (simp add: demo_env_fields jose_decode_def split_last_def split_first_def)

lemma wrongly_signed_token:
  "jwt_decode demo_env (token_for other_env [(''sub'', JStr ''a@x.com'')]) (JWT_SECRET demo_env)
     [JWT_ALG] = Inl JWTError"
proof -
  have a: "JWT_ALG \<in> set hs_algorithms" by (simp add: JWT_ALG_def hs_algorithms_def)
  have k: "utf8 ''dev-secret-change-me'' = ''dev-secret-change-me''"
          "utf8 ''another-secret'' = ''another-secret''"
    by (simp_all add: utf8_def)
  have ne: "demo_hmac JWT_ALG (utf8 ''dev-secret-change-me'') m
              \<noteq> demo_hmac JWT_ALG (utf8 ''another-secret'') m" for m
    unfolding k by (simp add: demo_hmac_def)
  from jose_wrong_key[where hmac=demo_hmac and alg=JWT_ALG and key="''dev-secret-change-me''"
        and key'="''another-secret''" and claims="[(''sub'', JStr ''a@x.com'')]"
        and algorithms="[JWT_ALG]", OF a ne]
  obtain token where t: "jose_encode demo_hmac [(''sub'', JStr ''a@x.com'')] ''another-secret'' JWT_ALG
                           = Inr token"
      "jose_decode demo_hmac token ''dev-secret-change-me'' [JWT_ALG] = Inl JWTError"
    by blast
  have "token_for other_env [(''sub'', JStr ''a@x.com'')] = token"
    using t(1) by (simp add: token_for_def other_env_def reference_env_def del: json_dumps.simps)
  then show ?thesis using t(2) by (simp add: demo_env_fields)
qed


subsection \<open>Issue, then verify\<close>

text \<open>
  C2. With the token library as modelled, whatever the keyed hash, the secret and the
  clock: for every subject, \<open>create_token\<close> returns a token; decoding that token under
  the same secret and algorithm, as \<open>track_event\<close> does, succeeds with the claims that
  were signed; and the subject read from a header carrying the token is exactly the
  subject the token was issued for.
\<close>

theorem create_token_roundtrip:
  "create_token (reference_env hmac bcrypt salt secret now) subject
     = Inr (token_for (reference_env hmac bcrypt salt secret now)
              [(''sub'', JStr subject), (''iat'', JInt now)])
   \<and> jwt_decode (reference_env hmac bcrypt salt secret now)
        (token_for (reference_env hmac bcrypt salt secret now)
           [(''sub'', JStr subject), (''iat'', JInt now)])
        (JWT_SECRET (reference_env hmac bcrypt salt secret now)) [JWT_ALG]
     = Inr [(''sub'', JStr subject), (''iat'', JInt now)]
   \<and> bearer_email (reference_env hmac bcrypt salt secret now)
        (Some (''Bearer '' @ token_for (reference_env hmac bcrypt salt secret now)
                 [(''sub'', JStr subject), (''iat'', JInt now)]))
     = Inr (Some (JStr subject))"
proof -
  let ?E = "reference_env hmac bcrypt salt secret now"
  let ?claims = "[(''sub'', JStr subject), (''iat'', JInt now)]"
  have s: "JWT_SECRET ?E = secret" "utcnow_timestamp ?E = now" by (simp_all add: reference_env_def)
  have r: "jwt_encode ?E ?claims secret JWT_ALG = Inr (token_for ?E ?claims)
           \<and> jwt_decode ?E (token_for ?E ?claims) secret [JWT_ALG] = Inr ?claims"
    by (rule reference_token) (simp_all add: validate_sub_def dict_get_def)
  then have 1: "create_token ?E subject = Inr (token_for ?E ?claims)"
    by (simp add: create_token_def s)
  have 2: "jwt_decode ?E (token_for ?E ?claims) (JWT_SECRET ?E) [JWT_ALG] = Inr ?claims"
    using r by (simp add: s)
  have 3: "bearer_email ?E (Some (''Bearer '' @ token_for ?E ?claims)) = Inr (Some (JStr subject))"
    by (simp only: bearer_email_Bearer 2) (simp add: dict_get_def)
  show ?thesis using 1 2 3 by blast
qed

theorem create_token_roundtrip_witness:
  "create_token demo_env ''a@x.com''
     = Inr (token_for demo_env [(''sub'', JStr ''a@x.com''), (''iat'', JInt 1700000000)])
   \<and> bearer_email demo_env
        (Some (''Bearer '' @ token_for demo_env [(''sub'', JStr ''a@x.com''), (''iat'', JInt 1700000000)]))
     = Inr (Some (JStr ''a@x.com''))"
  using create_token_roundtrip [of demo_hmac demo_bcrypt "''abcdefghijklmnopqrstuu''"
          "''dev-secret-change-me''" 1700000000 "''a@x.com''"]
  unfolding demo_env_def[symmetric] by blast


subsection \<open>A token that fails verification\<close>

text \<open>
  C5. In every environment and every state of the store: when decoding the bearer token
  raises \<open>JWTError\<close>, \<open>track_event\<close> still answers with status ok, and the event
  collection afterwards is the one before with exactly one more document, whose field
  \<open>user_id\<close> is the string "anonymous" and whose field \<open>type\<close> is the type of the request;
  every other collection is as it was.
\<close>

theorem track_event_swallows_token_failure:
  assumes "jwt_decode E token (JWT_SECRET E) [JWT_ALG] = Inl JWTError"
  shows "\<exists>st' d. track_event E (Some st) ev (Some (''Bearer '' @ token))
                    = (Inr (Status ''ok''), Some st')
           \<and> st' ''event'' = st ''event'' @ [d]
           \<and> dict_get d ''user_id'' = Some (JStr ''anonymous'')
           \<and> dict_get d ''type'' = Some (JStr (type ev))
           \<and> (\<forall>c. c \<noteq> ''event'' \<longrightarrow> st' c = st c)"
proof -
  have b: "bearer_email E (Some (''Bearer '' @ token)) = Inr None"
    by (simp only: bearer_email_Bearer assms) simp
  show ?thesis by (rule track_event_field[OF b]) simp
qed

theorem track_event_swallows_token_failure_witness:
  "(\<exists>st' d. track_event demo_env (Some sample_events) sample_click (Some ''Bearer garbage'')
               = (Inr (Status ''ok''), Some st')
      \<and> st' ''event'' = sample_events ''event'' @ [d]
      \<and> dict_get d ''user_id'' = Some (JStr ''anonymous''))
   \<and> (\<exists>st' d. track_event demo_env (Some sample_events) sample_click
                 (Some (''Bearer '' @ token_for other_env [(''sub'', JStr ''a@x.com'')]))
               = (Inr (Status ''ok''), Some st')
      \<and> st' ''event'' = sample_events ''event'' @ [d]
      \<and> dict_get d ''user_id'' = Some (JStr ''anonymous''))"
proof -
  have g: "''Bearer garbage'' = ''Bearer '' @ ''garbage''" by simp
  show ?thesis
    unfolding g
    using track_event_swallows_token_failure [OF garbage_token, of sample_events sample_click]
          track_event_swallows_token_failure [OF wrongly_signed_token, of sample_events sample_click]
    by blast
qed


subsection \<open>A valid token without a subject\<close>

text \<open>
  C10. In every environment and every state of the store: when the bearer token decodes
  and its claims have no \<open>sub\<close> or an empty one, \<open>track_event\<close> answers with status ok,
  and the event collection afterwards is the one before with exactly one more document,
  whose field \<open>user_id\<close> is the string "anonymous"; every other collection is as it was.
\<close>

theorem track_event_empty_subject:
  assumes "jwt_decode E token (JWT_SECRET E) [JWT_ALG] = Inr claims"
      and "dict_get claims ''sub'' = None \<or> dict_get claims ''sub'' = Some (JStr [])"
  shows "\<exists>st' d. track_event E (Some st) ev (Some (''Bearer '' @ token))
                    = (Inr (Status ''ok''), Some st')
           \<and> st' ''event'' = st ''event'' @ [d]
           \<and> dict_get d ''user_id'' = Some (JStr ''anonymous'')
           \<and> dict_get d ''type'' = Some (JStr (type ev))
           \<and> (\<forall>c. c \<noteq> ''event'' \<longrightarrow> st' c = st c)"
proof -
  have b: "bearer_email E (Some (''Bearer '' @ token)) = Inr (dict_get claims ''sub'')"
    by (simp only: bearer_email_Bearer assms(1)) simp
  have o: "or_anonymous (dict_get claims ''sub'') = JStr ''anonymous''"
    using assms(2) by auto
  show ?thesis by (rule track_event_field[OF b o])
qed

theorem track_event_empty_subject_witness:
  "(\<exists>st' d. track_event demo_env (Some sample_events) sample_click
                 (Some (''Bearer '' @ token_for demo_env [(''sub'', JStr [])]))
               = (Inr (Status ''ok''), Some st')
      \<and> st' ''event'' = sample_events ''event'' @ [d]
      \<and> dict_get d ''user_id'' = Some (JStr ''anonymous''))
   \<and> (\<exists>st' d. track_event demo_env (Some sample_events) sample_click
                 (Some (''Bearer '' @ token_for demo_env [(''iat'', JInt 1700000000)]))
               = (Inr (Status ''ok''), Some st')
      \<and> st' ''event'' = sample_events ''event'' @ [d]
      \<and> dict_get d ''user_id'' = Some (JStr ''anonymous''))"
proof -
  have 1: "jwt_decode demo_env (token_for demo_env [(''sub'', JStr [])]) (JWT_SECRET demo_env)
             [JWT_ALG] = Inr [(''sub'', JStr [])]"
    by (rule demo_token) (simp_all add: validate_sub_def dict_get_def)
  have 2: "jwt_decode demo_env (token_for demo_env [(''iat'', JInt 1700000000)])
             (JWT_SECRET demo_env) [JWT_ALG] = Inr [(''iat'', JInt 1700000000)]"
    by (rule demo_token) (simp_all add: validate_sub_def dict_get_def)
  have s1: "dict_get [(''sub'', JStr [])] ''sub'' = None
            \<or> dict_get [(''sub'', JStr [])] ''sub'' = Some (JStr [])"
    by (simp add: dict_get_def)
  have s2: "dict_get [(''iat'', JInt 1700000000)] ''sub'' = None
            \<or> dict_get [(''iat'', JInt 1700000000)] ''sub'' = Some (JStr [])"
    by (simp add: dict_get_def)
  show ?thesis
    using track_event_empty_subject [OF 1 s1, of sample_events sample_click]
          track_event_empty_subject [OF 2 s2, of sample_events sample_click]
    by blast
qed


subsection \<open>Whose event it is\<close>

text \<open>
  The claim C6 as stated fails on a token that verifies and whose subject is the empty
  string: the subject claim is "", and the document stored for the request has the
  \<open>user_id\<close> "anonymous", not "".
\<close>

theorem empty_subject_stored_as_anonymous:
  "jwt_decode demo_env (token_for demo_env [(''sub'', JStr [])]) (JWT_SECRET demo_env) [JWT_ALG]
     = Inr [(''sub'', JStr [])]
   \<and> dict_get [(''sub'', JStr [])] ''sub'' = Some (JStr [])
   \<and> track_event demo_env (Some sample_events) sample_click
        (Some (''Bearer '' @ token_for demo_env [(''sub'', JStr [])]))
     = (Inr (Status ''ok''),
        Some (sample_events(''event'' := sample_events ''event''
           @ [[(''user_id'', JStr ''anonymous''), (''type'', JStr ''click''),
               (''properties'', JObj [])]])))
   \<and> dict_get [(''user_id'', JStr ''anonymous''), (''type'', JStr ''click''),
                (''properties'', JObj [])] ''user_id''
     = Some (JStr ''anonymous'')
   \<and> JStr ''anonymous'' \<noteq> JStr []"
proof -
  have 1: "jwt_decode demo_env (token_for demo_env [(''sub'', JStr [])]) (JWT_SECRET demo_env)
             [JWT_ALG] = Inr [(''sub'', JStr [])]"
    by (rule demo_token) (simp_all add: validate_sub_def dict_get_def)
  have 2: "dict_get [(''sub'', JStr [])] ''sub'' = Some (JStr [])" by (simp add: dict_get_def)
  have b: "bearer_email demo_env (Some (''Bearer '' @ token_for demo_env [(''sub'', JStr [])]))
            = Inr (Some (JStr []))"
    by (simp only: bearer_email_Bearer 1) (simp add: dict_get_def)
  have o: "or_anonymous (Some (JStr [])) = JStr ''anonymous''" by simp
  have 3: "track_event demo_env (Some sample_events) sample_click
        (Some (''Bearer '' @ token_for demo_env [(''sub'', JStr [])]))
     = (Inr (Status ''ok''),
        Some (sample_events(''event'' := sample_events ''event''
           @ [[(''user_id'', JStr ''anonymous''), (''type'', JStr ''click''),
               (''properties'', JObj [])]])))"
    using track_event_stores[OF b o, of sample_events sample_click]
    by (simp add: sample_click_def)
  have 4: "dict_get [(''user_id'', JStr ''anonymous''), (''type'', JStr ''click''),
                (''properties'', JObj [])] ''user_id'' = Some (JStr ''anonymous'')"
    by (simp add: dict_get_def)
  have 5: "JStr ''anonymous'' \<noteq> JStr []" by simp
  show ?thesis using 1 2 3 4 5 by blast
qed


text \<open>
  C6, amended. In every environment and every state of the store: when the bearer token
  decodes and its subject is a non-empty string, \<open>track_event\<close> answers with status ok
  and appends one document to the event collection, whose field \<open>user_id\<close> is that
  subject; without an authorization header it does the same with the \<open>user_id\<close>
  "anonymous"; and whenever \<open>track_event\<close> succeeds, it has appended exactly one
  document to the event collection, whose \<open>user_id\<close> is a non-empty string.
\<close>

theorem track_event_user_id:
  "(\<forall>token claims s.
      jwt_decode E token (JWT_SECRET E) [JWT_ALG] = Inr claims
      \<and> dict_get claims ''sub'' = Some (JStr s) \<and> s \<noteq> [] \<longrightarrow>
      (\<exists>st' d. track_event E (Some st) ev (Some (''Bearer '' @ token))
                  = (Inr (Status ''ok''), Some st')
         \<and> st' ''event'' = st ''event'' @ [d]
         \<and> dict_get d ''user_id'' = Some (JStr s)))
   \<and> (\<exists>st' d. track_event E (Some st) ev None = (Inr (Status ''ok''), Some st')
         \<and> st' ''event'' = st ''event'' @ [d]
         \<and> dict_get d ''user_id'' = Some (JStr ''anonymous''))
   \<and> (\<forall>a r db'. track_event E (Some st) ev a = (Inr r, db') \<longrightarrow>
         (\<exists>st' d u. r = Status ''ok'' \<and> db' = Some st'
            \<and> st' ''event'' = st ''event'' @ [d]
            \<and> dict_get d ''user_id'' = Some (JStr u) \<and> u \<noteq> []))"
proof (intro conjI allI impI)
  fix token claims s
  assume h: "jwt_decode E token (JWT_SECRET E) [JWT_ALG] = Inr claims
      \<and> dict_get claims ''sub'' = Some (JStr s) \<and> s \<noteq> []"
  then have b: "bearer_email E (Some (''Bearer '' @ token)) = Inr (Some (JStr s))"
    by (simp only: bearer_email_Bearer) simp
  have o: "or_anonymous (Some (JStr s)) = JStr s" using h by simp
  from track_event_field[OF b o, of st ev]
  show "\<exists>st' d. track_event E (Some st) ev (Some (''Bearer '' @ token))
                  = (Inr (Status ''ok''), Some st')
         \<and> st' ''event'' = st ''event'' @ [d]
         \<and> dict_get d ''user_id'' = Some (JStr s)"
    by blast
next
  have o: "or_anonymous None = JStr ''anonymous''" by simp
  from track_event_field[OF bearer_email_no_header o, of E st ev]
  show "\<exists>st' d. track_event E (Some st) ev None = (Inr (Status ''ok''), Some st')
         \<and> st' ''event'' = st ''event'' @ [d]
         \<and> dict_get d ''user_id'' = Some (JStr ''anonymous'')"
    by blast
next
  fix a r db'
  assume t: "track_event E (Some st) ev a = (Inr r, db')"
  then obtain em where em: "bearer_email E a = Inr em"
    by (cases "bearer_email E a") (auto simp: track_event_def)
  from t em obtain u where u: "or_anonymous em = JStr u"
    by (cases "or_anonymous em") (auto simp: track_event_def)
  from track_event_field[OF em u, of st ev] t or_anonymous_nonempty[OF u]
  show "\<exists>st' d u. r = Status ''ok'' \<and> db' = Some st'
            \<and> st' ''event'' = st ''event'' @ [d]
            \<and> dict_get d ''user_id'' = Some (JStr u) \<and> u \<noteq> []"
    by auto
qed

theorem track_event_user_id_witness:
  "(\<exists>st' d. track_event demo_env (Some sample_events) sample_click
        (Some (''Bearer '' @ token_for demo_env [(''sub'', JStr ''a@x.com''), (''iat'', JInt 1700000000)]))
               = (Inr (Status ''ok''), Some st')
      \<and> st' ''event'' = sample_events ''event'' @ [d]
      \<and> dict_get d ''user_id'' = Some (JStr ''a@x.com''))
   \<and> (\<exists>st' d. track_event demo_env (Some sample_events) sample_click None
               = (Inr (Status ''ok''), Some st')
      \<and> st' ''event'' = sample_events ''event'' @ [d]
      \<and> dict_get d ''user_id'' = Some (JStr ''anonymous''))"
proof -
  have 1: "jwt_decode demo_env
             (token_for demo_env [(''sub'', JStr ''a@x.com''), (''iat'', JInt 1700000000)])
             (JWT_SECRET demo_env) [JWT_ALG]
           = Inr [(''sub'', JStr ''a@x.com''), (''iat'', JInt 1700000000)]"
    by (rule demo_token) (simp_all add: validate_sub_def dict_get_def)
  have 2: "dict_get [(''sub'', JStr ''a@x.com''), (''iat'', JInt 1700000000)] ''sub''
             = Some (JStr ''a@x.com'') \<and> ''a@x.com'' \<noteq> []"
    by (simp add: dict_get_def)
  note t = track_event_user_id [of demo_env sample_events sample_click]
  show ?thesis
    using t[THEN conjunct1, rule_format, OF conjI[OF 1 2]] t[THEN conjunct2, THEN conjunct1]
    by (rule conjI)
qed

section \<open>Registration and login\<close>

subsection \<open>The sample store\<close>

lemma demo_salt_wf: "wf_salt ''abcdefghijklmnopqrstuu''"
  by (simp add: wf_salt_def bcrypt64_def bcrypt64_char_def)

lemma no_nul_pw: "\<not> has_nul ''pw1''" "\<not> has_nul ''wrong''"
  by (simp_all add: has_nul_def utf8_def)

lemma short_pw: "length (utf8 ''pw1'') \<le> 4096" "length (utf8 ''wrong'') \<le> 4096"
  by (simp_all add: utf8_def)

lemma demo_pwd:
  "pwd_hash demo_env = passlib_hash demo_bcrypt ''abcdefghijklmnopqrstuu''"
  "pwd_verify demo_env = passlib_verify demo_bcrypt"
  by (simp_all add: demo_env_def reference_env_def)

lemma demo_checksum_differs:
  "calc_checksum demo_bcrypt ''$2b$'' 12 ''abcdefghijklmnopqrstuu'' ''wrong''
     \<noteq> calc_checksum demo_bcrypt ''$2b$'' 12 ''abcdefghijklmnopqrstuu'' ''pw1''"
  by (simp add: calc_checksum_def demo_bcrypt_def utf8_def)

lemma wrong_password_demo:
  "verify_password demo_env ''wrong'' (JStr (hash_text demo_bcrypt ''abcdefghijklmnopqrstuu'' ''pw1''))
     = Inr False"
  using hash_then_verify[OF demo_bcrypt_wf demo_salt_wf short_pw(1) no_nul_pw(1) short_pw(2)
          no_nul_pw(2)]
        demo_checksum_differs
  by (simp only: verify_password_def demo_pwd demo_salt_repaired simp_thms)

lemma find_user_store:
  "find_one user_store ''user'' [(''email'', JStr ''a@x.com'')]
     = Some (model_dump (User ''a@x.com'' None
           (hash_text demo_bcrypt ''abcdefghijklmnopqrstuu'' ''pw1'')))"
  "find_one user_store ''user'' [(''email'', JStr ''b@x.com'')] = None"
  by (simp_all add: find_one_def user_store_def matches_def dict_get_def)

lemma emails_user_store: "emails user_store = [JStr ''a@x.com'']"
  by (simp add: emails_def user_store_def List.map_filter_def dict_get_def)


subsection \<open>One document per address\<close>

lemma matches_email: "matches [(''email'', JStr e)] d \<longleftrightarrow> dict_get d ''email'' = Some (JStr e)"
  by (simp add: matches_def)

lemma in_emails: "v \<in> set (emails st) \<longleftrightarrow> (\<exists>d \<in> set (st ''user''). dict_get d ''email'' = Some v)"
  by (auto simp: emails_def List.map_filter_def image_iff)

lemma registered_found:
  "doc_truthy (find_one st ''user'' [(''email'', JStr e)]) \<longleftrightarrow> JStr e \<in> set (emails st)"
proof (cases "find_one st ''user'' [(''email'', JStr e)]")
  case None
  then have "\<forall>d \<in> set (st ''user''). dict_get d ''email'' \<noteq> Some (JStr e)"
    by (simp add: find_one_def find_None_iff matches_email)
  then show ?thesis using None by (simp add: in_emails)
next
  case (Some d)
  then have "d \<in> set (st ''user'')" "dict_get d ''email'' = Some (JStr e)"
    by (auto simp: find_one_def find_Some_iff matches_email)
  moreover from this have "d \<noteq> []" by (auto simp: dict_get_def)
  ultimately show ?thesis using Some by (auto simp: in_emails)
qed

lemma emails_new_user:
  "emails (create_document ''user'' (User e n h) st) = emails st @ [JStr e]"
  by (simp add: emails_def create_document_def insert_one_def List.map_filter_def dict_get_def)

lemma emails_new_event: "emails (create_document ''event'' m st) = emails st"
  by (simp add: emails_def create_document_def insert_one_def)

lemma register_keeps_unique:
  assumes "distinct (emails st)"
  shows "\<exists>st'. snd (register E (Some st) p) = Some st' \<and> distinct (emails st')"
proof (cases "JStr (email p) \<in> set (emails st)")
  case True
  then show ?thesis using assms by (simp add: register_def registered_found)
next
  case False
  then have "distinct (emails (create_document ''user'' (User (email p) None h) st))" for h
    using assms by (simp add: emails_new_user)
  then show ?thesis
    using assms False
    by (auto simp: register_def registered_found Let_def split: sum.splits)
qed

lemma login_keeps_store: "snd (login E (Some st) p) = Some st"
  by (auto simp: login_def split: option.splits sum.splits)

lemma track_event_keeps_users:
  "\<exists>st'. snd (track_event E (Some st) ev a) = Some st' \<and> emails st' = emails st"
  by (auto simp: track_event_def emails_new_event split: sum.splits)

lemma analytics_keeps_store: "snd (analytics_summary (Some st) a) = Some st"
  by (simp add: analytics_summary_def Let_def)

lemma handle_keeps_unique:
  assumes "distinct (emails st)"
  shows "\<exists>st'. snd (handle E (Some st) r) = Some st' \<and> distinct (emails st')"
proof (cases r)
  case (Register p)
  then show ?thesis using register_keeps_unique[OF assms] by simp
next
  case (Login p)
  then show ?thesis using assms by (simp add: login_keeps_store)
next
  case (TrackEvent ev a)
  then show ?thesis using track_event_keeps_users[of E st ev a] assms by auto
next
  case (AnalyticsSummary a)
  then show ?thesis using assms by (simp add: analytics_keeps_store)
qed

lemma serve_keeps_unique:
  "distinct (emails st) \<Longrightarrow> \<exists>st'. serve (Some st) reqs = Some st' \<and> distinct (emails st')"
proof (induction reqs arbitrary: st)
  case Nil
  then show ?case by simp
next
  case (Cons q reqs)
  obtain E r where q: "q = (E, r)" by (cases q)
  from handle_keeps_unique[OF Cons.prems, of E r]
  obtain st1 where "snd (handle E (Some st) r) = Some st1" "distinct (emails st1)" by blast
  with Cons.IH[of st1] show ?case by (simp add: q)
qed


text \<open>
  C3. In every environment: when a user document with the address of the request is in
  the store, \<open>register\<close> fails with status 400, "Email already registered", and leaves
  the store as it was. Hence, when no address is held by two user documents, this stays
  so after any sequence of requests to the four handlers, served one after the other.
\<close>

theorem register_unique_email:
  "(JStr (email p) \<in> set (emails st) \<longrightarrow>
      register E (Some st) p = (Inl (HTTPException 400 ''Email already registered''), Some st))
   \<and> (distinct (emails st) \<longrightarrow>
        (\<exists>st'. serve (Some st) reqs = Some st' \<and> distinct (emails st')))"
  using serve_keeps_unique[of st reqs] by (simp add: register_def registered_found)

theorem register_unique_email_witness:
  "register demo_env (Some user_store) \<lparr> email = ''a@x.com'', password = ''pw2'' \<rparr>
     = (Inl (HTTPException 400 ''Email already registered''), Some user_store)
   \<and> (\<exists>st'. serve (Some user_store)
               [(demo_env, Register \<lparr> email = ''a@x.com'', password = ''pw2'' \<rparr>),
                (demo_env, Register \<lparr> email = ''b@x.com'', password = ''pw3'' \<rparr>),
                (other_env, Register \<lparr> email = ''b@x.com'', password = ''pw4'' \<rparr>)] = Some st'
             \<and> distinct (emails st'))"
proof -
  note t = register_unique_email [of "\<lparr> email = ''a@x.com'', password = ''pw2'' \<rparr>" user_store demo_env
          "[(demo_env, Register \<lparr> email = ''a@x.com'', password = ''pw2'' \<rparr>),
            (demo_env, Register \<lparr> email = ''b@x.com'', password = ''pw3'' \<rparr>),
            (other_env, Register \<lparr> email = ''b@x.com'', password = ''pw4'' \<rparr>)]"]
  have m: "JStr (email \<lparr> email = ''a@x.com'', password = ''pw2'' \<rparr>) \<in> set (emails user_store)"
    by (simp add: emails_user_store)
  have d: "distinct (emails user_store)" by (simp add: emails_user_store)
  show ?thesis
    using t[THEN conjunct1, THEN mp, OF m] t[THEN conjunct2, THEN mp, OF d] by (rule conjI)
qed


subsection \<open>Failed logins\<close>

text \<open>
  What \<open>login\<close> does with the outcome of \<open>verify_password\<close>: without a user document, or
  when it returns \<open>False\<close>, the answer is the same 401; when it raises, the exception
  leaves \<open>login\<close> as it is.
\<close>

lemma login_invalid_credentials:
  assumes "find_one st ''user'' [(''email'', JStr (email p))] = None
           \<or> (\<exists>u. find_one st ''user'' [(''email'', JStr (email p))] = Some u
                 \<and> verify_password E (password p) (stored_hash u) = Inr False)"
  shows "login E (Some st) p = (Inl (HTTPException 401 ''Invalid credentials''), Some st)"
  using assms by (auto simp: login_def invalid_credentials_def)

lemma login_propagates:
  assumes "find_one st ''user'' [(''email'', JStr (email q))] = Some u" "u \<noteq> []"
      and "verify_password E (password q) (stored_hash u) = Inl e"
  shows "login E (Some st) q = (Inl e, Some st)"
  using assms by (simp add: login_def)

lemma login_wrong_password:
  "login demo_env (Some user_store) \<lparr> email = ''a@x.com'', password = ''wrong'' \<rparr>
     = (Inl (HTTPException 401 ''Invalid credentials''), Some user_store)"
  by (rule login_invalid_credentials)
     (simp add: find_user_store stored_hash_def dict_get_def wrong_password_demo)

lemma nul_password_demo:
  "verify_password demo_env [CHR 0x00]
     (JStr (hash_text demo_bcrypt ''abcdefghijklmnopqrstuu'' ''pw1'')) = Inl PasswordValueError"
proof -
  have n: "has_nul [CHR 0x00]" "\<not> MAX_PASSWORD_SIZE < length [CHR 0x00]"
          "\<not> MAX_PASSWORD_SIZE < length (utf8 [CHR 0x00])"
    by (simp_all add: has_nul_def utf8_def MAX_PASSWORD_SIZE_def)
  show ?thesis
    unfolding verify_password_def demo_pwd passlib_verify_def
    by (simp only: json.case identify_hash_text
        from_string_hash_text[OF demo_bcrypt_wf demo_salt_wf] n if_False if_True option.case
        prod.case simp_thms)
qed


text \<open>
  C4. The two causes of a failed login are not always answered alike. In the sample
  store the address a@x.com is registered and b@x.com is not. For the password made of
  the one character NUL, which is not the password of a@x.com, the password library
  raises instead of returning \<open>False\<close>: \<open>login\<close> for a@x.com ends with that exception (an
  internal server error), and \<open>login\<close> for b@x.com with status 401, "Invalid credentials".
\<close>

theorem login_failures_distinguishable:
  "login demo_env (Some user_store) \<lparr> email = ''a@x.com'', password = [CHR 0x00] \<rparr>
     = (Inl PasswordValueError, Some user_store)
   \<and> login demo_env (Some user_store) \<lparr> email = ''b@x.com'', password = [CHR 0x00] \<rparr>
     = (Inl (HTTPException 401 ''Invalid credentials''), Some user_store)"
proof -
  have 1: "login demo_env (Some user_store) \<lparr> email = ''a@x.com'', password = [CHR 0x00] \<rparr>
     = (Inl PasswordValueError, Some user_store)"
    by (rule login_propagates[where u="model_dump (User ''a@x.com'' None
           (hash_text demo_bcrypt ''abcdefghijklmnopqrstuu'' ''pw1''))"])
       (simp_all add: find_user_store stored_hash_def dict_get_def nul_password_demo)
  have 2: "login demo_env (Some user_store) \<lparr> email = ''b@x.com'', password = [CHR 0x00] \<rparr>
     = (Inl (HTTPException 401 ''Invalid credentials''), Some user_store)"
    by (rule login_invalid_credentials) (simp add: find_user_store)
  show ?thesis using 1 2 by (rule conjI)
qed


section \<open>Passwords\<close>

subsection \<open>What \<open>verify_password\<close> does with a hash it cannot read\<close>

lemma utf8_ascii: "\<forall>c \<in> set s. (of_char c :: nat) < 128 \<Longrightarrow> utf8 s = s"
  by (induction s) (auto simp: utf8_def)

lemma reference_pwd:
  "hash_password (reference_env hmac bcrypt salt secret now) p = passlib_hash bcrypt salt p"
  "verify_password (reference_env hmac bcrypt salt secret now) p h = passlib_verify bcrypt p h"
  by (simp_all add: hash_password_def verify_password_def reference_env_def)

lemma empty_hash_demo: "verify_password demo_env ''pw'' (JStr []) = Inl UnknownHashError"
  by (simp add: verify_password_def demo_env_def reference_env_def passlib_verify_def
      identify_def bcrypt_idents_def startswith_def)

lemma find_broken_store:
  "find_one broken_store ''user'' [(''email'', JStr ''c@x.com'')]
     = Some [(''email'', JStr ''c@x.com''), (''name'', JNull)]"
  by (simp add: find_one_def broken_store_def matches_def dict_get_def)


text \<open>
  C7. \<open>verify_password\<close> does not return \<open>False\<close> for the empty hash: it raises
  \<open>UnknownHashError\<close>. The empty string is the hash that \<open>login\<close> takes for a user document
  without \<open>password_hash\<close>, and \<open>login\<close> for such a document ends with that exception
  instead of status 401.
\<close>

theorem verify_password_raises_on_empty_hash:
  "verify_password demo_env ''pw'' (JStr []) = Inl UnknownHashError
   \<and> stored_hash [(''email'', JStr ''c@x.com''), (''name'', JNull)] = JStr []
   \<and> login demo_env (Some broken_store) \<lparr> email = ''c@x.com'', password = ''pw'' \<rparr>
       = (Inl UnknownHashError, Some broken_store)"
proof -
  have s: "stored_hash [(''email'', JStr ''c@x.com''), (''name'', JNull)] = JStr []"
    by (simp add: stored_hash_def dict_get_def)
  have "login demo_env (Some broken_store) \<lparr> email = ''c@x.com'', password = ''pw'' \<rparr>
       = (Inl UnknownHashError, Some broken_store)"
    by (rule login_propagates[where u="[(''email'', JStr ''c@x.com''), (''name'', JNull)]"])
       (simp_all add: find_broken_store s empty_hash_demo)
  then show ?thesis using empty_hash_demo s by simp
qed


subsection \<open>Hash, then verify\<close>

lemma take72_long: "take 72 (utf8 (long_password c)) = replicate 72 (CHR ''a'')" if "(of_char c :: nat) < 128"
proof -
  have "utf8 (long_password c) = long_password c"
    by (rule utf8_ascii) (use that in \<open>auto simp: long_password_def\<close>)
  then show ?thesis by (simp add: long_password_def)
qed

lemma long_password_no_nul: "\<not> has_nul (long_password c)" if "(of_char c :: nat) < 128" "c \<noteq> CHR 0x00"
proof -
  have "utf8 (long_password c) = long_password c"
    by (rule utf8_ascii) (use that in \<open>auto simp: long_password_def\<close>)
  then show ?thesis using that by (auto simp: has_nul_def long_password_def)
qed

lemma long_password_short: "length (utf8 (long_password c)) \<le> 4096" if "(of_char c :: nat) < 128"
proof -
  have "utf8 (long_password c) = long_password c"
    by (rule utf8_ascii) (use that in \<open>auto simp: long_password_def\<close>)
  then show ?thesis by (simp add: long_password_def)
qed

lemma nul_password_refused: "hash_password demo_env [CHR 0x00] = Inl PasswordValueError"
  by (simp add: hash_password_def demo_pwd passlib_hash_def has_nul_def utf8_def too_long_def
      MAX_PASSWORD_SIZE_def)

lemma big_password_refused:
  "hash_password demo_env (replicate 4097 (CHR ''a'')) = Inl PasswordSizeError"
  by (simp add: hash_password_def demo_pwd passlib_hash_def too_long_def MAX_PASSWORD_SIZE_def)


text \<open>
  The claim C8 as stated fails on two different passwords of 73 bytes that share their
  first 72 bytes: the hash of one verifies the other. It also fails on a password with
  a NUL byte and on one of 4097 characters, for which \<open>hash_password\<close> raises.
\<close>

theorem long_passwords_collide_counterexample:
  "long_password (CHR ''y'') \<noteq> long_password (CHR ''x'')
   \<and> hash_password demo_env (long_password (CHR ''x''))
       = Inr (hash_text demo_bcrypt ''abcdefghijklmnopqrstuu'' (long_password (CHR ''x'')))
   \<and> verify_password demo_env (long_password (CHR ''y''))
       (JStr (hash_text demo_bcrypt ''abcdefghijklmnopqrstuu'' (long_password (CHR ''x''))))
       = Inr True
   \<and> hash_password demo_env [CHR 0x00] = Inl PasswordValueError
   \<and> hash_password demo_env (replicate 4097 (CHR ''a'')) = Inl PasswordSizeError"
proof -
  have n: "\<not> has_nul (long_password (CHR ''x''))" "\<not> has_nul (long_password (CHR ''y''))"
    by (rule long_password_no_nul; simp)+
  have l: "length (utf8 (long_password (CHR ''x''))) \<le> 4096"
          "length (utf8 (long_password (CHR ''y''))) \<le> 4096"
    by (rule long_password_short; simp)+
  have t: "take 72 (utf8 (long_password (CHR ''y''))) = take 72 (utf8 (long_password (CHR ''x'')))"
    by (simp add: take72_long)
  note h = hash_then_verify[OF demo_bcrypt_wf demo_salt_wf l(1) n(1) l(2) n(2)]
  have 1: "long_password (CHR ''y'') \<noteq> long_password (CHR ''x'')"
    by (simp add: long_password_def)
  have 2: "hash_password demo_env (long_password (CHR ''x''))
       = Inr (hash_text demo_bcrypt ''abcdefghijklmnopqrstuu'' (long_password (CHR ''x'')))"
    using h by (simp add: hash_password_def demo_pwd)
  have 3: "verify_password demo_env (long_password (CHR ''y''))
       (JStr (hash_text demo_bcrypt ''abcdefghijklmnopqrstuu'' (long_password (CHR ''x''))))
       = Inr True"
    using h t by (simp add: verify_password_def demo_pwd calc_checksum_def)
  show ?thesis using 1 2 3 nul_password_refused big_password_refused by blast
qed


text \<open>
  C8, amended. With the password library as modelled, for a key derivation and a salt of
  the right shape and passwords \<open>p\<close> and \<open>q\<close> of at most 4096 bytes without a NUL byte:
  \<open>hash_password\<close> succeeds on \<open>p\<close>, and \<open>verify_password\<close> holds for \<open>p\<close> against that hash.
  For \<open>q\<close> against that hash it returns a boolean: true whenever \<open>q\<close> and \<open>p\<close> agree on
  their first 72 bytes, and false whenever the key derivation gives the first 72 bytes
  of \<open>q\<close> another digest than those of \<open>p\<close>.
\<close>

theorem hash_then_verify_password:
  assumes "wf_bcrypt bcrypt" "wf_salt salt"
      and "length (utf8 p) \<le> 4096" "\<not> has_nul p"
      and "length (utf8 q) \<le> 4096" "\<not> has_nul q"
  shows "hash_password (reference_env hmac bcrypt salt secret now) p
           = Inr (hash_text bcrypt salt p)
         \<and> verify_password (reference_env hmac bcrypt salt secret now) p
             (JStr (hash_text bcrypt salt p)) = Inr True
         \<and> (\<exists>b. verify_password (reference_env hmac bcrypt salt secret now) q
                   (JStr (hash_text bcrypt salt p)) = Inr b)
         \<and> (take 72 (utf8 q) = take 72 (utf8 p) \<longrightarrow>
              verify_password (reference_env hmac bcrypt salt secret now) q
                (JStr (hash_text bcrypt salt p)) = Inr True)
         \<and> (bcrypt ''$2b$'' 12 (repair_unused 4 salt) (take 72 (utf8 q))
              \<noteq> bcrypt ''$2b$'' 12 (repair_unused 4 salt) (take 72 (utf8 p)) \<longrightarrow>
              verify_password (reference_env hmac bcrypt salt secret now) q
                (JStr (hash_text bcrypt salt p)) = Inr False)"
proof -
  note pq = hash_then_verify[OF assms(1,2,3,4,5,6)]
  note pp = hash_then_verify[OF assms(1,2,3,4,3,4)]
  have 1: "hash_password (reference_env hmac bcrypt salt secret now) p
             = Inr (hash_text bcrypt salt p)"
    using pq by (simp add: reference_pwd)
  have 2: "verify_password (reference_env hmac bcrypt salt secret now) p
             (JStr (hash_text bcrypt salt p)) = Inr True"
    using pp by (simp add: reference_pwd)
  have 3: "verify_password (reference_env hmac bcrypt salt secret now) q
             (JStr (hash_text bcrypt salt p))
           = Inr (bcrypt ''$2b$'' 12 (repair_unused 4 salt) (take 72 (utf8 q))
                   = bcrypt ''$2b$'' 12 (repair_unused 4 salt) (take 72 (utf8 p)))"
    using pq by (simp add: reference_pwd calc_checksum_def)
  show ?thesis using 1 2 3 by simp
qed

theorem hash_then_verify_password_witness:
  "hash_password demo_env ''pw1'' = Inr (hash_text demo_bcrypt ''abcdefghijklmnopqrstuu'' ''pw1'')
   \<and> verify_password demo_env ''pw1''
        (JStr (hash_text demo_bcrypt ''abcdefghijklmnopqrstuu'' ''pw1'')) = Inr True
   \<and> verify_password demo_env ''wrong''
        (JStr (hash_text demo_bcrypt ''abcdefghijklmnopqrstuu'' ''pw1'')) = Inr False"
proof -
  note t = hash_then_verify_password [OF demo_bcrypt_wf demo_salt_wf short_pw(1) no_nul_pw(1)
      short_pw(2) no_nul_pw(2),
      where hmac = demo_hmac and secret = "''dev-secret-change-me''" and now = 1700000000,
      folded demo_env_def]
  have d: "demo_bcrypt ''$2b$'' 12 (repair_unused 4 ''abcdefghijklmnopqrstuu'') (take 72 (utf8 ''wrong''))
             \<noteq> demo_bcrypt ''$2b$'' 12 (repair_unused 4 ''abcdefghijklmnopqrstuu'') (take 72 (utf8 ''pw1''))"
    using demo_checksum_differs by (simp only: calc_checksum_def demo_salt_repaired simp_thms)
  have 3: "verify_password demo_env ''wrong''
        (JStr (hash_text demo_bcrypt ''abcdefghijklmnopqrstuu'' ''pw1'')) = Inr False"
    using t[THEN conjunct2, THEN conjunct2, THEN conjunct2, THEN conjunct2, THEN mp, OF d] .
  show ?thesis using t[THEN conjunct1] t[THEN conjunct2, THEN conjunct1] 3 by blast
qed


end
